theory Spec2Isabelle
  imports Main "HOL-Library.Word"
begin

unbundle bit_operations_syntax

section \<open>Regular expressions as the source uses them\<close>

text \<open>
  The source matches its input with Python's \<^verbatim>\<open>re\<close> module, a backtracking matcher:
  alternatives are tried left to right, an optional group is tried before it is skipped,
  and \<^verbatim>\<open>search\<close> returns the first match at the leftmost position that has one.
  The matcher below returns every way a pattern matches at the start of a string, in the
  order in which backtracking finds them: each result is the unread rest of the string
  together with the text of capture group 1 (\<open>None\<close> while the group has not matched).
  The head of the list is the match Python reports.
\<close>

datatype rx =
    Lit string
  | Cls "char \<Rightarrow> bool"
  | Cat rx rx
  | Alt rx rx
  | Opt rx
  | Times nat rx
  | Group rx

fun strip_lit :: "string \<Rightarrow> string \<Rightarrow> string option" where
  "strip_lit [] s = Some s"
| "strip_lit (c # cs) [] = None"
| "strip_lit (c # cs) (x # xs) = (if c = x then strip_lit cs xs else None)"

primrec rx_weight :: "rx \<Rightarrow> nat" where
  "rx_weight (Lit l) = 0"
| "rx_weight (Cls P) = 0"
| "rx_weight (Cat a b) = Suc (rx_weight a + rx_weight b)"
| "rx_weight (Alt a b) = Suc (rx_weight a + rx_weight b)"
| "rx_weight (Opt a) = Suc (rx_weight a)"
| "rx_weight (Times n a) = Suc (n + rx_weight a)"
| "rx_weight (Group a) = Suc (rx_weight a)"

function rmatch :: "rx \<Rightarrow> string \<times> string option \<Rightarrow> (string \<times> string option) list" where
  "rmatch (Lit l) (s, g) = (case strip_lit l s of None \<Rightarrow> [] | Some r \<Rightarrow> [(r, g)])"
| "rmatch (Cls P) (s, g) = (case s of [] \<Rightarrow> [] | x # xs \<Rightarrow> if P x then [(xs, g)] else [])"
| "rmatch (Cat a b) (s, g) = concat (map (rmatch b) (rmatch a (s, g)))"
| "rmatch (Alt a b) (s, g) = rmatch a (s, g) @ rmatch b (s, g)"
| "rmatch (Opt a) (s, g) = rmatch a (s, g) @ [(s, g)]"
| "rmatch (Times 0 a) (s, g) = [(s, g)]"
| "rmatch (Times (Suc n) a) (s, g) = concat (map (rmatch (Times n a)) (rmatch a (s, g)))"
| "rmatch (Group a) (s, g) =
     map (\<lambda>(r, _). (r, Some (take (length s - length r) s))) (rmatch a (s, g))"
  by pat_completeness auto
termination
  by (relation "measure (\<lambda>(r, _). rx_weight r)") auto

text \<open>\<^verbatim>\<open>pattern.search(s)\<close>: the first match at the leftmost position, every position
  from 0 to \<^verbatim>\<open>len(s)\<close> being tried; the result is the text of group 1.\<close>

fun re_search :: "rx \<Rightarrow> string \<Rightarrow> string option option" where
  "re_search r [] = (case rmatch r ([], None) of [] \<Rightarrow> None | (_, g) # _ \<Rightarrow> Some g)"
| "re_search r (x # xs) =
     (case rmatch r (x # xs, None) of [] \<Rightarrow> re_search r xs | (_, g) # _ \<Rightarrow> Some g)"

text \<open>\<^verbatim>\<open>re.fullmatch(pattern, s)\<close>: is there a match that reads the whole string.\<close>

definition re_fullmatch :: "rx \<Rightarrow> string \<Rightarrow> bool" where
  "re_fullmatch r s = list_ex (\<lambda>m. fst m = []) (rmatch r (s, None))"

section \<open>Identifier normalizer\<close>

text \<open>The character class \<^verbatim>\<open>[0-9A-Za-z_-]\<close>.\<close>

definition id_char :: "char \<Rightarrow> bool" where
  "id_char c = (let n = (of_char c :: nat) in
      (of_char CHR ''0'' \<le> n \<and> n \<le> of_char CHR ''9'') \<or>
      (of_char CHR ''A'' \<le> n \<and> n \<le> of_char CHR ''Z'') \<or>
      (of_char CHR ''a'' \<le> n \<and> n \<le> of_char CHR ''z'') \<or>
      c = CHR ''_'' \<or> c = CHR ''-'')"

text \<open>
  \<^verbatim>\<open>YT_RE = re.compile(r'(?:https?://)?(?:www\.)?(?:youtube\.com/(?:watch\?v=|embed/|shorts/)|youtu\.be/)?([0-9A-Za-z_-]{11})')\<close>
\<close>

definition YT_RE :: rx where
  "YT_RE =
     Cat (Opt (Cat (Lit ''http'') (Cat (Opt (Lit ''s'')) (Lit ''://''))))
    (Cat (Opt (Lit ''www.''))
    (Cat (Opt (Alt (Cat (Lit ''youtube.com/'')
                        (Alt (Lit ''watch?v='') (Alt (Lit ''embed/'') (Lit ''shorts/''))))
                   (Lit ''youtu.be/'')))
         (Group (Times 11 (Cls id_char)))))"

definition ID_RE :: rx where
  "ID_RE = Times 11 (Cls id_char)"

text \<open>
  \<^verbatim>\<open>str.strip()\<close> removes leading and trailing whitespace. A \<open>char\<close> is one of the
  256 code points below U+0100; of those, \<^verbatim>\<open>str.isspace\<close> holds for U+0009 to U+000D,
  U+001C to U+0020, U+0085 and U+00A0.
\<close>

definition is_space :: "char \<Rightarrow> bool" where
  "is_space c = (let n = (of_char c :: nat) in
      (9 \<le> n \<and> n \<le> 13) \<or> (28 \<le> n \<and> n \<le> 32) \<or> n = 133 \<or> n = 160)"

definition py_strip :: "string \<Rightarrow> string" where
  "py_strip s = rev (dropWhile is_space (rev (dropWhile is_space s)))"

definition watch_url :: "string \<Rightarrow> string" where
  "watch_url v = ''https://www.youtube.com/watch?v='' @ v"

text \<open>
  \<^verbatim>\<open>
  def normalize_youtube_input(inp: str) -> str:
      inp = inp.strip()
      m = YT_RE.search(inp)
      if m:
          vidid = m.group(1)
          return f"https://www.youtube.com/watch?v={vidid}"
      if re.fullmatch(r"[0-9A-Za-z_-]{11}", inp):
          return f"https://www.youtube.com/watch?v={inp}"
      return inp
  \<close>
  Group 1 is not optional in \<^verbatim>\<open>YT_RE\<close>, so \<^verbatim>\<open>m.group(1)\<close> is a string whenever there is
  a match; the model formats Python's \<^verbatim>\<open>None\<close> as the f-string would.
\<close>

definition normalize_youtube_input :: "string \<Rightarrow> string" where
  "normalize_youtube_input inp0 =
     (let inp = py_strip inp0 in
      case re_search YT_RE inp of
        Some g \<Rightarrow> watch_url (case g of Some vidid \<Rightarrow> vidid | None \<Rightarrow> ''None'')
      | None \<Rightarrow> if re_fullmatch ID_RE inp then watch_url inp else inp)"

text \<open>
  \<^verbatim>\<open>
  def extract_vidid(inp: str) -> Optional[str]:
      m = YT_RE.search(inp.strip())
      if m:
          return m.group(1)
      if re.fullmatch(r"[0-9A-Za-z_-]{11}", inp.strip()):
          return inp.strip()
      return None
  \<close>
\<close>

definition extract_vidid :: "string \<Rightarrow> string option" where
  "extract_vidid inp =
     (case re_search YT_RE (py_strip inp) of
        Some g \<Rightarrow> g
      | None \<Rightarrow> if re_fullmatch ID_RE (py_strip inp) then Some (py_strip inp) else None)"

definition well_formed_id :: "string \<Rightarrow> bool" where
  "well_formed_id v = (length v = 11 \<and> list_all id_char v)"

text \<open>The URL shapes the pattern names: an optional scheme, an optional \<^verbatim>\<open>www.\<close>, and one
  of the four paths.\<close>

definition url_shapes :: "string list" where
  "url_shapes = concat (map (\<lambda>scheme. concat (map (\<lambda>www. map (\<lambda>path. scheme @ www @ path)
       [''youtube.com/watch?v='', ''youtube.com/embed/'', ''youtube.com/shorts/'', ''youtu.be/''])
       [[], ''www.''])) [[], ''http://'', ''https://''])"

section \<open>Configuration\<close>

text \<open>
  The module reads its configuration from the process environment once, at import:
  \<^verbatim>\<open>CACHE_CHANNEL_ID\<close>, \<^verbatim>\<open>BOT_TOKEN\<close>, \<^verbatim>\<open>DEFAULT_VIDEO_QUALITY\<close> (default \<^verbatim>\<open>"720"\<close>),
  \<^verbatim>\<open>DEFAULT_AUDIO_QUALITY\<close> (default \<^verbatim>\<open>"320"\<close>) and \<^verbatim>\<open>DOWNLOAD_DIR\<close>
  (default \<^verbatim>\<open>"./downloads"\<close>). The values are fixed for the life of the process and are
  a parameter of every function that reads them.
\<close>

record config =
  CACHE_CHANNEL_ID :: int
  BOT_TOKEN :: string
  DEFAULT_VIDEO_QUALITY :: string
  DEFAULT_AUDIO_QUALITY :: string
  DOWNLOAD_DIR :: string

section \<open>Quality selector\<close>

text \<open>
  The decrypted metadata document is a JSON object; the code reads it with \<^verbatim>\<open>dict.get\<close>,
  so every key may be missing (\<open>None\<close>). A rendition carries its kind under \<^verbatim>\<open>"type"\<close>
  and its numeric descriptor under \<^verbatim>\<open>"height"\<close> (video) or \<^verbatim>\<open>"bitrate"\<close> (audio);
  numbers are Python's unbounded integers.
\<close>

record format =
  f_type :: "string option"
  f_height :: "int option"
  f_bitrate :: "int option"

record decrypted =
  d_title :: "string option"
  d_durationLabel :: "string option"
  d_thumbnail :: "string option"
  d_key :: "string option"
  d_formats :: "format list option"

text \<open>\<^verbatim>\<open>str(n)\<close> for an integer: decimal digits, with a minus sign below zero.\<close>

fun str_nat :: "nat \<Rightarrow> string" where
  "str_nat n = (if n < 10 then [char_of (48 + n)] else str_nat (n div 10) @ [char_of (48 + n mod 10)])"

declare str_nat.simps [simp del]

definition str_int :: "int \<Rightarrow> string" where
  "str_int i = (if i < 0 then CHR ''-'' # str_nat (nat (- i)) else str_nat (nat i))"

text \<open>
  \<^verbatim>\<open>xs.sort(key=k, reverse=True)\<close>: Python's sort is stable, and with \<^verbatim>\<open>reverse=True\<close>
  elements with equal keys keep their original order; that is a stable ascending sort on
  the negated key.
\<close>

definition py_sort_desc :: "('a \<Rightarrow> int) \<Rightarrow> 'a list \<Rightarrow> 'a list" where
  "py_sort_desc k xs = sort_key (\<lambda>x. - k x) xs"

definition get_or :: "'a option \<Rightarrow> 'a \<Rightarrow> 'a" where
  "get_or v d = (case v of None \<Rightarrow> d | Some x \<Rightarrow> x)"

text \<open>
  \<^verbatim>\<open>
  def choose_best_quality(decrypted: dict, media_type: str) -> str:
      if media_type == "video":
          formats = decrypted.get("formats", [])
          video_formats = [f for f in formats if f.get("type") == "video"]
          if video_formats:
              video_formats.sort(key=lambda x: x.get("height", 0), reverse=True)
              return str(video_formats[0].get("height", DEFAULT_VIDEO_QUALITY))
          return DEFAULT_VIDEO_QUALITY
      else:
          formats = decrypted.get("formats", [])
          audio_formats = [f for f in formats if f.get("type") == "audio"]
          if audio_formats:
              audio_formats.sort(key=lambda x: x.get("bitrate", 0), reverse=True)
              return str(audio_formats[0].get("bitrate", DEFAULT_AUDIO_QUALITY))
          return DEFAULT_AUDIO_QUALITY
  \<close>
\<close>

definition choose_best_quality :: "config \<Rightarrow> decrypted \<Rightarrow> string \<Rightarrow> string" where
  "choose_best_quality cfg dec media_type =
     (if media_type = ''video'' then
        (let formats = get_or (d_formats dec) [];
             video_formats = filter (\<lambda>f. f_type f = Some ''video'') formats
         in if video_formats \<noteq> [] then
              (case f_height (hd (py_sort_desc (\<lambda>x. get_or (f_height x) 0) video_formats)) of
                 Some h \<Rightarrow> str_int h
               | None \<Rightarrow> DEFAULT_VIDEO_QUALITY cfg)
            else DEFAULT_VIDEO_QUALITY cfg)
      else
        (let formats = get_or (d_formats dec) [];
             audio_formats = filter (\<lambda>f. f_type f = Some ''audio'') formats
         in if audio_formats \<noteq> [] then
              (case f_bitrate (hd (py_sort_desc (\<lambda>x. get_or (f_bitrate x) 0) audio_formats)) of
                 Some b \<Rightarrow> str_int b
               | None \<Rightarrow> DEFAULT_AUDIO_QUALITY cfg)
            else DEFAULT_AUDIO_QUALITY cfg))"

text \<open>The renditions of one kind, their descriptor and its default, as the claims name them.\<close>

definition renditions :: "decrypted \<Rightarrow> string \<Rightarrow> format list" where
  "renditions dec kind = filter (\<lambda>f. f_type f = Some kind) (get_or (d_formats dec) [])"

definition descriptor :: "string \<Rightarrow> format \<Rightarrow> int option" where
  "descriptor kind f = (if kind = ''video'' then f_height f else f_bitrate f)"

definition default_quality :: "config \<Rightarrow> string \<Rightarrow> string" where
  "default_quality cfg kind =
     (if kind = ''video'' then DEFAULT_VIDEO_QUALITY cfg else DEFAULT_AUDIO_QUALITY cfg)"

section \<open>Process state and environment\<close>

text \<open>
  An exception is a value: FastAPI's \<^verbatim>\<open>HTTPException(status_code, detail)\<close>, or any other
  exception with its message. \<open>exn_str\<close> is \<^verbatim>\<open>str(e)\<close>.
\<close>

datatype exn = HTTPException nat string | Error string

fun exn_str :: "exn \<Rightarrow> string" where
  "exn_str (HTTPException code detail) = str_nat code @ '': '' @ detail"
| "exn_str (Error msg) = msg"

text \<open>
  A document of the \<^verbatim>\<open>apikeys\<close> collection. The code reads it with \<^verbatim>\<open>record.get\<close>, so a
  field may be absent (\<open>None\<close>). Instants are integers (a count of microseconds); the
  expiry is stored as a datetime or as ISO text.
\<close>

datatype expiry = ExpiryTime int | ExpiryText string

record api_record =
  ak_key :: string
  ak_owner :: string
  ak_daily_limit :: "int option"
  ak_used_today :: "int option"
  ak_last_used_date :: "string option"
  ak_expiry_date :: "expiry option"
  ak_is_admin :: bool
  ak_created_at :: int

text \<open>A document of the \<^verbatim>\<open>cache\<close> collection; a metadata value is a string or \<^verbatim>\<open>None\<close>.\<close>

record cache_doc =
  c_ytid :: string
  c_type :: string
  c_file_id :: string
  c_chat_id :: int
  c_msg_id :: int
  c_file_name :: string
  c_meta :: "string \<rightharpoonup> string option"
  c_cached_at :: int

text \<open>The arguments of one call of \<^verbatim>\<open>background_download_and_upload\<close>.\<close>

record task =
  t_ytid :: string
  t_media_type :: string
  t_download_url :: string
  t_title :: string
  t_quality :: string
  t_meta :: "string \<rightharpoonup> string option"

text \<open>
  The operations on the outside world that have completed, in order: queries and updates
  of the two collections, calls of the origin service, the bulk download (URL and destination), the upload to the
  blob store (file, kind and caption), the file-location lookup and the removal of a local file.
\<close>

datatype event =
    ApikeysFind string
  | ApikeysUpdate string
  | CacheFind string string
  | CacheUpsert string string
  | OriginInfo string
  | OriginDownload "string option" string string
  | Download string string
  | Upload string string string
  | GetFile string
  | Remove string

text \<open>
  The state a request or an archival run reads and writes: the two collections (the unique
  index on \<^verbatim>\<open>key\<close> makes \<^verbatim>\<open>apikeys\<close> a map from keys; the only writer of \<^verbatim>\<open>cache\<close> upserts
  by \<^verbatim>\<open>(ytid, type)\<close>), the two module globals \<^verbatim>\<open>IN_MEMORY_CACHE\<close> and \<^verbatim>\<open>PROCESSING_SET\<close>,
  the paths present in the local file system, the completed outside operations, and the
  coroutines handed to the event loop by \<^verbatim>\<open>asyncio.create_task\<close>.
\<close>

record world =
  apikeys :: "string \<rightharpoonup> api_record"
  cache :: "string \<times> string \<rightharpoonup> cache_doc"
  IN_MEMORY_CACHE :: "string \<rightharpoonup> cache_doc"
  PROCESSING_SET :: "string set"
  files :: "string set"
  trace :: "event list"
  tasks :: "task list"

text \<open>
  What the outside world answers during one request: the two clock readings
  (\<^verbatim>\<open>datetime.utcnow()\<close> and \<^verbatim>\<open>ist_date_str()\<close>), \<^verbatim>\<open>datetime.fromisoformat\<close> (\<open>None\<close> when it
  raises), the outcome of \<^verbatim>\<open>savetube_info\<close> for a URL and of \<^verbatim>\<open>savetube_download\<close> for a key,
  quality and kind, and the two file-location lookups of the blob store (\<open>None\<close> when the
  lookup fails).
\<close>

record env =
  utcnow :: int
  today :: string
  fromisoformat :: "string \<Rightarrow> int option"
  savetube_info :: "string \<Rightarrow> exn + decrypted"
  savetube_download :: "string option \<Rightarrow> string \<Rightarrow> string \<Rightarrow> exn + string"
  get_file :: "string \<Rightarrow> string option"
  get_file_http :: "string \<Rightarrow> string option"

definition log_event :: "event \<Rightarrow> world \<Rightarrow> world" where
  "log_event e w = w\<lparr>trace := trace w @ [e]\<rparr>"

section \<open>Admission gate\<close>

text \<open>
  \<^verbatim>\<open>update_one({"key": key}, ...)\<close> changes the document with that key, if there is one.
\<close>

definition update_one_apikey :: "string \<Rightarrow> (api_record \<Rightarrow> api_record) \<Rightarrow> world \<Rightarrow> world" where
  "update_one_apikey k f w =
     log_event (ApikeysUpdate k)
       (case apikeys w k of
          None \<Rightarrow> w
        | Some r \<Rightarrow> w\<lparr>apikeys := (apikeys w)(k \<mapsto> f r)\<rparr>)"

text \<open>
  The expiry test of \<^verbatim>\<open>check_api_key\<close>; the result is the exception raised, if any.
  \<^verbatim>\<open>
      expiry = record.get("expiry_date")
      if expiry:
          if isinstance(expiry, str):
              expiry = datetime.datetime.fromisoformat(expiry)
          if expiry < datetime.datetime.utcnow():
              raise HTTPException(status_code=403, detail="API key expired")
  \<close>
\<close>

definition check_expiry :: "env \<Rightarrow> expiry option \<Rightarrow> exn option" where
  "check_expiry e expiry =
     (case expiry of
        None \<Rightarrow> None
      | Some (ExpiryTime t) \<Rightarrow>
          if t < utcnow e then Some (HTTPException 403 ''API key expired'') else None
      | Some (ExpiryText s) \<Rightarrow>
          if s = [] then None
          else (case fromisoformat e s of
                  None \<Rightarrow> Some (Error ''Invalid isoformat string'')
                | Some t \<Rightarrow>
                    if t < utcnow e then Some (HTTPException 403 ''API key expired'') else None))"

text \<open>
  \<^verbatim>\<open>
  async def check_api_key(key: str):
      if not key:
          raise HTTPException(status_code=401, detail="API key required")
      record = await mongodb.apikeys.find_one({"key": key})
      if not record:
          raise HTTPException(status_code=401, detail="Invalid API key")
      expiry = ...
      today = ist_date_str()
      if record.get("last_used_date") != today:
          await mongodb.apikeys.update_one(
              {"key": key}, {"$set": {"used_today": 0, "last_used_date": today}})
          record["used_today"] = 0
      used = record.get("used_today", 0)
      limit = record.get("daily_limit", 1000)
      if used >= limit:
          raise HTTPException(status_code=429, detail="Daily limit reached")
      await mongodb.apikeys.update_one({"key": key}, {"$inc": {"used_today": 1}})
      return record
  \<close>
  \<^verbatim>\<open>$inc\<close> on an absent field sets it to the increment.
\<close>

definition check_api_key :: "env \<Rightarrow> string \<Rightarrow> world \<Rightarrow> (exn + api_record) \<times> world" where
  "check_api_key e k w =
     (if k = [] then (Inl (HTTPException 401 ''API key required''), w)
      else
        (let w1 = log_event (ApikeysFind k) w in
         case apikeys w k of
           None \<Rightarrow> (Inl (HTTPException 401 ''Invalid API key''), w1)
         | Some record \<Rightarrow>
            (case check_expiry e (ak_expiry_date record) of
               Some x \<Rightarrow> (Inl x, w1)
             | None \<Rightarrow>
                (let stale = (ak_last_used_date record \<noteq> Some (today e));
                     w2 = (if stale
                           then update_one_apikey k
                                  (\<lambda>r. r\<lparr>ak_used_today := Some 0,
                                         ak_last_used_date := Some (today e)\<rparr>) w1
                           else w1);
                     record1 = (if stale then record\<lparr>ak_used_today := Some 0\<rparr> else record);
                     used = get_or (ak_used_today record1) 0;
                     limit = get_or (ak_daily_limit record1) 1000
                 in if used \<ge> limit
                    then (Inl (HTTPException 429 ''Daily limit reached''), w2)
                    else (Inr record1,
                          update_one_apikey k
                            (\<lambda>r. r\<lparr>ak_used_today := Some (get_or (ak_used_today r) 0 + 1)\<rparr>)
                            w2)))))"

text \<open>Successive calls with the same key, each with its own clock readings: the result of
  every call and the state it leaves.\<close>

fun run_admissions :: "env list \<Rightarrow> string \<Rightarrow> world \<Rightarrow> ((exn + api_record) \<times> world) list" where
  "run_admissions [] k w = []"
| "run_admissions (e # es) k w =
     (let (r, w1) = check_api_key e k w in (r, w1) # run_admissions es k w1)"

text \<open>The stored used-today counter of a key, read as the code reads it.\<close>

definition used_count :: "world \<Rightarrow> string \<Rightarrow> int" where
  "used_count w k = (case apikeys w k of None \<Rightarrow> 0 | Some r \<Rightarrow> get_or (ak_used_today r) 0)"

text \<open>The stored last-use date of a key.\<close>

definition last_used :: "world \<Rightarrow> string \<Rightarrow> string option" where
  "last_used w k = (case apikeys w k of None \<Rightarrow> None | Some r \<Rightarrow> ak_last_used_date r)"

section \<open>Cache index\<close>

definition cache_key :: "string \<Rightarrow> string \<Rightarrow> string" where
  "cache_key ytid media_type = ytid @ '':'' @ media_type"

text \<open>
  \<^verbatim>\<open>
  async def get_cached_file(ytid: str, media_type: str) -> Optional[Dict]:
      cache_key = f"{ytid}:{media_type}"
      if cache_key in IN_MEMORY_CACHE:
          return IN_MEMORY_CACHE[cache_key]
      doc = await mongodb.cache.find_one({"ytid": ytid, "type": media_type})
      if doc:
          IN_MEMORY_CACHE[cache_key] = doc
          return doc
      return None
  \<close>
\<close>

definition get_cached_file :: "string \<Rightarrow> string \<Rightarrow> world \<Rightarrow> cache_doc option \<times> world" where
  "get_cached_file ytid media_type w =
     (case IN_MEMORY_CACHE w (cache_key ytid media_type) of
        Some doc \<Rightarrow> (Some doc, w)
      | None \<Rightarrow>
         (let w1 = log_event (CacheFind ytid media_type) w in
          case cache w (ytid, media_type) of
            Some doc \<Rightarrow>
              (Some doc,
               w1\<lparr>IN_MEMORY_CACHE := (IN_MEMORY_CACHE w1)(cache_key ytid media_type \<mapsto> doc)\<rparr>)
          | None \<Rightarrow> (None, w1)))"

text \<open>
  \<^verbatim>\<open>
  async def save_cache_record(ytid, media_type, file_id, chat_id, msg_id, file_name, meta):
      doc = {"ytid": ytid, "type": media_type, "file_id": file_id, "chat_id": chat_id,
             "msg_id": msg_id, "file_name": file_name, "meta": meta,
             "cached_at": datetime.datetime.utcnow()}
      await mongodb.cache.update_one({"ytid": ytid, "type": media_type},
                                     {"$set": doc}, upsert=True)
      cache_key = f"{ytid}:{media_type}"
      IN_MEMORY_CACHE[cache_key] = doc
      return doc
  \<close>
  The first argument is the clock reading; the second says whether the update of the
  collection completes (\<open>True\<close>) or raises.
\<close>

definition save_cache_record ::
  "int \<Rightarrow> bool \<Rightarrow> string \<Rightarrow> string \<Rightarrow> string \<Rightarrow> int \<Rightarrow> int \<Rightarrow> string
     \<Rightarrow> (string \<rightharpoonup> string option) \<Rightarrow> world \<Rightarrow> (exn + cache_doc) \<times> world" where
  "save_cache_record now db_ok ytid media_type file_id chat_id msg_id file_name meta w =
     (let doc = \<lparr>c_ytid = ytid, c_type = media_type, c_file_id = file_id, c_chat_id = chat_id,
                 c_msg_id = msg_id, c_file_name = file_name, c_meta = meta,
                 c_cached_at = now\<rparr>
      in if \<not> db_ok then (Inl (Error ''update_one failed''), w)
         else
           (let w1 = log_event (CacheUpsert ytid media_type)
                       (w\<lparr>cache := (cache w)((ytid, media_type) \<mapsto> doc)\<rparr>)
            in (Inr doc,
                w1\<lparr>IN_MEMORY_CACHE := (IN_MEMORY_CACHE w1)(cache_key ytid media_type \<mapsto> doc)\<rparr>)))"

section \<open>Single-flight archiver\<close>

text \<open>
  What the outside world does during one archival run: whether the bulk download completes
  or raises (and, if it raises, whether it had already created the destination file), the
  outcome of the upload (the file id and message id of the sent message, or an exception),
  whether the update of the \<^verbatim>\<open>cache\<close> collection completes, whether \<^verbatim>\<open>os.remove\<close> succeeds on
  an existing file, and the clock reading. Closing the HTTP session does not raise.
\<close>

datatype download_outcome = Downloaded | DownloadFailed bool

record outcomes =
  o_download :: download_outcome
  o_upload :: "exn + string \<times> int"
  o_db_ok :: bool
  o_remove_ok :: bool
  o_now :: int

text \<open>\<^verbatim>\<open>os.path.join(a, b)\<close> on POSIX.\<close>

definition path_join :: "string \<Rightarrow> string \<Rightarrow> string" where
  "path_join a b =
     (if b \<noteq> [] \<and> hd b = CHR ''/'' then b
      else if a = [] \<or> last a = CHR ''/'' then a @ b
      else a @ ''/'' @ b)"

text \<open>
  \<^verbatim>\<open>
      ext = "mp4" if media_type == "video" else "mp3"
      filename = f"{ytid}_{media_type}_{quality}.{ext}"
      filepath = os.path.join(DOWNLOAD_DIR, filename)
  \<close>
\<close>

definition task_filename :: "task \<Rightarrow> string" where
  "task_filename t =
     t_ytid t @ ''_'' @ t_media_type t @ ''_'' @ t_quality t @ ''.''
       @ (if t_media_type t = ''video'' then ''mp4'' else ''mp3'')"

definition task_filepath :: "config \<Rightarrow> task \<Rightarrow> string" where
  "task_filepath cfg t = path_join (DOWNLOAD_DIR cfg) (task_filename t)"

definition task_key :: "task \<Rightarrow> string" where
  "task_key t = cache_key (t_ytid t) (t_media_type t)"

text \<open>
  \<^verbatim>\<open>download_file(session, url, dest_path)\<close> streams the response into the destination
  file, or raises. \<^verbatim>\<open>upload_to_telegram(file_path, title, media_type)\<close> sends the file with
  the caption \<^verbatim>\<open>title[:1000]\<close> and returns the file id and the message id, or logs and
  re-raises.
\<close>

definition download_file :: "outcomes \<Rightarrow> string \<Rightarrow> string \<Rightarrow> world \<Rightarrow> (exn + unit) \<times> world" where
  "download_file out url dest_path w =
     (case o_download out of
        Downloaded \<Rightarrow>
          (Inr (), log_event (Download url dest_path) (w\<lparr>files := insert dest_path (files w)\<rparr>))
      | DownloadFailed created \<Rightarrow>
          (Inl (Error ''download failed''),
           if created then w\<lparr>files := insert dest_path (files w)\<rparr> else w))"

definition upload_to_telegram ::
  "outcomes \<Rightarrow> string \<Rightarrow> string \<Rightarrow> string \<Rightarrow> world \<Rightarrow> (exn + string \<times> int) \<times> world" where
  "upload_to_telegram out file_path title media_type w =
     (case o_upload out of
        Inl x \<Rightarrow> (Inl x, w)
      | Inr sent \<Rightarrow> (Inr sent, log_event (Upload file_path media_type (take 1000 title)) w))"

text \<open>
  The call of \<^verbatim>\<open>save_cache_record\<close> in the archiver:
  \<^verbatim>\<open>
          await save_cache_record(ytid, media_type, file_id, CACHE_CHANNEL_ID, msg_id,
                                  filename, {"title": title, "quality": quality, **meta})
  \<close>
\<close>

definition save_for_task ::
  "config \<Rightarrow> outcomes \<Rightarrow> task \<Rightarrow> string \<Rightarrow> int \<Rightarrow> world \<Rightarrow> (exn + cache_doc) \<times> world" where
  "save_for_task cfg out t file_id msg_id w =
     save_cache_record (o_now out) (o_db_ok out) (t_ytid t) (t_media_type t) file_id
       (CACHE_CHANNEL_ID cfg) msg_id (task_filename t)
       ([''title'' \<mapsto> Some (t_title t), ''quality'' \<mapsto> Some (t_quality t)] ++ t_meta t) w"

text \<open>The body of the \<^verbatim>\<open>try\<close> block: download, upload, save; the first exception ends it.\<close>

definition archive_body :: "config \<Rightarrow> outcomes \<Rightarrow> task \<Rightarrow> world \<Rightarrow> (exn + unit) \<times> world" where
  "archive_body cfg out t w =
     (case download_file out (t_download_url t) (task_filepath cfg t) w of
        (Inl x, w1) \<Rightarrow> (Inl x, w1)
      | (Inr _, w1) \<Rightarrow>
         (case upload_to_telegram out (task_filepath cfg t) (t_title t) (t_media_type t) w1 of
            (Inl x, w2) \<Rightarrow> (Inl x, w2)
          | (Inr (file_id, msg_id), w2) \<Rightarrow>
             (case save_for_task cfg out t file_id msg_id w2 of
                (Inl x, w3) \<Rightarrow> (Inl x, w3)
              | (Inr _, w3) \<Rightarrow> (Inr (), w3))))"

text \<open>
  The \<^verbatim>\<open>finally\<close> block, after the session is closed:
  \<^verbatim>\<open>
          try:
              if os.path.exists(filepath):
                  os.remove(filepath)
          except Exception as e:
              logger.error(f"Failed to delete {filepath}: {e}")
          PROCESSING_SET.discard(cache_key)
  \<close>
\<close>

definition cleanup :: "config \<Rightarrow> outcomes \<Rightarrow> task \<Rightarrow> world \<Rightarrow> world" where
  "cleanup cfg out t w =
     (let w1 = (if task_filepath cfg t \<in> files w \<and> o_remove_ok out
                then log_event (Remove (task_filepath cfg t))
                       (w\<lparr>files := files w - {task_filepath cfg t}\<rparr>)
                else w)
      in w1\<lparr>PROCESSING_SET := PROCESSING_SET w1 - {task_key t}\<rparr>)"

text \<open>
  \<^verbatim>\<open>
  async def background_download_and_upload(ytid, media_type, download_url, title, quality, meta):
      cache_key = f"{ytid}:{media_type}"
      if cache_key in PROCESSING_SET:
          logger.info(f"Already processing {cache_key}, skipping")
          return
      PROCESSING_SET.add(cache_key)
      ...
      session = aiohttp.ClientSession()
      try:
          await download_file(session, download_url, filepath)
          file_id, msg_id = await upload_to_telegram(filepath, title, media_type)
          await save_cache_record(...)
      except Exception as e:
          logger.error(f"Background task failed for {cache_key}: {e}")
      finally:
          await session.close()
          ...
  \<close>
  The result is what the coroutine hands to its caller: \<open>Inr ()\<close> for a normal return,
  \<open>Inl\<close> for an exception that leaves it. Log lines are not part of the state.
\<close>

definition background_download_and_upload ::
  "config \<Rightarrow> outcomes \<Rightarrow> task \<Rightarrow> world \<Rightarrow> (exn + unit) \<times> world" where
  "background_download_and_upload cfg out t w =
     (if task_key t \<in> PROCESSING_SET w then (Inr (), w)
      else
        (let w1 = w\<lparr>PROCESSING_SET := insert (task_key t) (PROCESSING_SET w)\<rparr>;
             (r, w2) = archive_body cfg out t w1;
             caught = (case r of Inl x \<Rightarrow> Inr () | Inr u \<Rightarrow> Inr u)
         in (caught, cleanup cfg out t w2)))"

text \<open>
  Concurrent runs. A coroutine runs without interruption until it awaits an operation on
  the outside world; other coroutines run while it waits. One run of the archiver is thus
  a sequence of steps, each the code from the completion of one awaited operation to the
  start of the next: the entry check and mark; the completion of the download; of the
  upload; of the record write (with the update of \<^verbatim>\<open>IN_MEMORY_CACHE\<close> that follows it
  without an await); of the closing of the session (with the cleanup that follows it).
  The program counter says which operation the run is waiting for.
\<close>

datatype pc = Start | Downloading | Uploading | Saving string int | Closing | Finished

record proc =
  p_task :: task
  p_out :: outcomes
  p_pc :: pc

definition step :: "config \<Rightarrow> proc \<Rightarrow> world \<Rightarrow> proc \<times> world" where
  "step cfg p w =
     (case p_pc p of
        Start \<Rightarrow>
          if task_key (p_task p) \<in> PROCESSING_SET w then (p\<lparr>p_pc := Finished\<rparr>, w)
          else (p\<lparr>p_pc := Downloading\<rparr>,
                w\<lparr>PROCESSING_SET := insert (task_key (p_task p)) (PROCESSING_SET w)\<rparr>)
      | Downloading \<Rightarrow>
          (case download_file (p_out p) (t_download_url (p_task p))
                  (task_filepath cfg (p_task p)) w of
             (Inl x, w1) \<Rightarrow> (p\<lparr>p_pc := Closing\<rparr>, w1)
           | (Inr _, w1) \<Rightarrow> (p\<lparr>p_pc := Uploading\<rparr>, w1))
      | Uploading \<Rightarrow>
          (case upload_to_telegram (p_out p) (task_filepath cfg (p_task p))
                  (t_title (p_task p)) (t_media_type (p_task p)) w of
             (Inl x, w1) \<Rightarrow> (p\<lparr>p_pc := Closing\<rparr>, w1)
           | (Inr (file_id, msg_id), w1) \<Rightarrow> (p\<lparr>p_pc := Saving file_id msg_id\<rparr>, w1))
      | Saving file_id msg_id \<Rightarrow>
          (p\<lparr>p_pc := Closing\<rparr>, snd (save_for_task cfg (p_out p) (p_task p) file_id msg_id w))
      | Closing \<Rightarrow> (p\<lparr>p_pc := Finished\<rparr>, cleanup cfg (p_out p) (p_task p) w)
      | Finished \<Rightarrow> (p, w))"

text \<open>A schedule names, step by step, the run that proceeds next.\<close>

fun run_schedule :: "config \<Rightarrow> nat list \<Rightarrow> proc list \<times> world \<Rightarrow> proc list \<times> world" where
  "run_schedule cfg [] (ps, w) = (ps, w)"
| "run_schedule cfg (i # sched) (ps, w) =
     (if i < length ps
      then (let (p, w1) = step cfg (ps ! i) w in run_schedule cfg sched (ps[i := p], w1))
      else run_schedule cfg sched (ps, w))"

definition new_proc :: "task \<Rightarrow> outcomes \<Rightarrow> proc" where
  "new_proc t out = \<lparr>p_task = t, p_out = out, p_pc = Start\<rparr>"

text \<open>The number of completed uploads and record writes in a trace.\<close>

definition uploads :: "event list \<Rightarrow> nat" where
  "uploads tr = length (filter (\<lambda>ev. case ev of Upload _ _ _ \<Rightarrow> True | _ \<Rightarrow> False) tr)"

definition record_writes :: "event list \<Rightarrow> nat" where
  "record_writes tr = length (filter (\<lambda>ev. case ev of CacheUpsert _ _ \<Rightarrow> True | _ \<Rightarrow> False) tr)"

text \<open>Abbreviations for the claims about the archiver: every operation of a run succeeds;
  download and upload succeed; one step of a run on a pair of run and state; a run that
  has entered and not yet settled.\<close>

definition all_ok :: "outcomes \<Rightarrow> bool" where
  "all_ok out = (o_download out = Downloaded \<and> \<not> isl (o_upload out) \<and> o_db_ok out)"

definition advance :: "config \<Rightarrow> proc \<times> world \<Rightarrow> proc \<times> world" where
  "advance cfg c = step cfg (fst c) (snd c)"

definition in_flight :: "pc \<Rightarrow> bool" where
  "in_flight c = (c \<noteq> Start \<and> c \<noteq> Finished)"

definition sent_ok :: "outcomes \<Rightarrow> bool" where
  "sent_ok out = (o_download out = Downloaded \<and> \<not> isl (o_upload out))"

section \<open>Request handlers\<close>

text \<open>Python truthiness of an optional string, and \<^verbatim>\<open>a or b\<close>.\<close>

definition truthy :: "string option \<Rightarrow> bool" where
  "truthy v = (case v of None \<Rightarrow> False | Some s \<Rightarrow> s \<noteq> [])"

definition py_or :: "string option \<Rightarrow> string option \<Rightarrow> string option" where
  "py_or a b = (if truthy a then a else b)"

text \<open>
  \<^verbatim>\<open>get_telegram_download_url(file_id)\<close>: the file path from the client library, else from
  the HTTP API, else the documented fallback URL. It never raises.
\<close>

definition get_telegram_download_url :: "config \<Rightarrow> env \<Rightarrow> string \<Rightarrow> string" where
  "get_telegram_download_url cfg e file_id =
     (case get_file e file_id of
        Some file_path \<Rightarrow> ''https://api.telegram.org/file/bot'' @ BOT_TOKEN cfg @ ''/'' @ file_path
      | None \<Rightarrow>
         (case get_file_http e file_id of
            Some file_path \<Rightarrow>
              ''https://api.telegram.org/file/bot'' @ BOT_TOKEN cfg @ ''/'' @ file_path
          | None \<Rightarrow>
              ''https://api.telegram.org/bot'' @ BOT_TOKEN cfg @ ''/getFile?file_id='' @ file_id))"

text \<open>
  \<^verbatim>\<open>f"https://t.me/c/{str(cached['chat_id']).replace('-100', '')}/{cached['msg_id']}"\<close>.
  In the decimal text of an integer a minus sign stands only in front, so the only
  occurrence of \<^verbatim>\<open>-100\<close> that \<^verbatim>\<open>replace\<close> can find is a leading one.
\<close>

definition tlink :: "int \<Rightarrow> int \<Rightarrow> string" where
  "tlink chat_id msg_id =
     ''https://t.me/c/''
       @ (case strip_lit ''-100'' (str_int chat_id) of Some r \<Rightarrow> r | None \<Rightarrow> str_int chat_id)
       @ ''/'' @ str_int msg_id"

record telegram_msg =
  tm_chat_id :: int
  tm_msg_id :: int
  tm_tlink :: string

record result =
  res_title :: "string option"
  res_duration :: "string option"
  res_quality :: "string option"
  res_source :: string
  res_url :: string
  res_file_id :: "string option"
  res_telegram_msg :: "telegram_msg option"

text \<open>What the handler hands to the framework: an exception that leaves it, a
  \<^verbatim>\<open>JSONResponse\<close> with a status code and a message, or a result (status 200).\<close>

datatype response = Raised exn | JSONResponse nat string | Success result

definition meta_get :: "(string \<rightharpoonup> string option) \<Rightarrow> string \<Rightarrow> string option" where
  "meta_get m k = (case m k of None \<Rightarrow> Some ''Unknown'' | Some v \<Rightarrow> v)"

text \<open>\<^verbatim>\<open>selected_quality = quality or choose_best_quality(decrypted, kind)\<close>\<close>

definition selected_quality :: "config \<Rightarrow> string option \<Rightarrow> decrypted \<Rightarrow> string \<Rightarrow> string" where
  "selected_quality cfg quality dec kind =
     (case quality of
        None \<Rightarrow> choose_best_quality cfg dec kind
      | Some q \<Rightarrow> if q \<noteq> [] then q else choose_best_quality cfg dec kind)"

text \<open>
  The handlers \<^verbatim>\<open>ytmp4\<close> and \<^verbatim>\<open>ytmp3\<close> are the same text but for the kind (\<^verbatim>\<open>"video"\<close>,
  \<^verbatim>\<open>"audio"\<close>) and the name in a log line; \<open>resolve_media\<close> is that text with the kind as a
  parameter.
  \<^verbatim>\<open>
      await check_api_key(api_key)
      yt_url = normalize_youtube_input(url)
      vidid = extract_vidid(url) or extract_vidid(yt_url)
      if not vidid:
          return JSONResponse(status_code=400,
                              content={"status": False, "message": "Invalid YouTube URL or ID"})
      cached = await get_cached_file(vidid, "video")
      if cached:
          telegram_url = await get_telegram_download_url(cached["file_id"])
          ...
          return {"status": True, "result": {..., "source": "telegram_cache", ...}}
      session = aiohttp.ClientSession()
      try:
          decrypted = await savetube_info(session, yt_url)
          selected_quality = quality or choose_best_quality(decrypted, "video")
          download_url = await savetube_download(session, decrypted.get("key"),
                                                 selected_quality, "video")
          response_data = {"status": True, "result": {..., "source": "savetube", ...}}
          asyncio.create_task(background_download_and_upload(
              vidid, "video", download_url, decrypted.get("title", vidid), selected_quality,
              {"duration": decrypted.get("durationLabel", "Unknown"),
               "thumbnail": decrypted.get("thumbnail")}))
          return response_data
      except Exception as e:
          return JSONResponse(status_code=500, content={"status": False, "message": str(e)})
      finally:
          await session.close()
  \<close>
\<close>

definition resolve_origin ::
  "config \<Rightarrow> env \<Rightarrow> string \<Rightarrow> string \<Rightarrow> string \<Rightarrow> string option \<Rightarrow> world \<Rightarrow> response \<times> world" where
  "resolve_origin cfg e kind vidid yt_url quality w =
     (case savetube_info e yt_url of
        Inl x \<Rightarrow> (JSONResponse 500 (exn_str x), w)
      | Inr dec \<Rightarrow>
         (let w1 = log_event (OriginInfo yt_url) w;
              q = selected_quality cfg quality dec kind
          in case savetube_download e (d_key dec) q kind of
               Inl x \<Rightarrow> (JSONResponse 500 (exn_str x), w1)
             | Inr download_url \<Rightarrow>
                (let w2 = log_event (OriginDownload (d_key dec) q kind) w1
                 in (Success \<lparr>res_title = Some (get_or (d_title dec) ''Unknown''),
                       res_duration = Some (get_or (d_durationLabel dec) ''Unknown''),
                       res_quality = Some q, res_source = ''savetube'', res_url = download_url,
                       res_file_id = None, res_telegram_msg = None\<rparr>,
                     w2\<lparr>tasks := tasks w2 @
                       [\<lparr>t_ytid = vidid, t_media_type = kind, t_download_url = download_url,
                         t_title = get_or (d_title dec) vidid, t_quality = q,
                         t_meta = [''duration'' \<mapsto> Some (get_or (d_durationLabel dec) ''Unknown''),
                                   ''thumbnail'' \<mapsto> d_thumbnail dec]\<rparr>]\<rparr>))))"

definition resolve_media ::
  "config \<Rightarrow> env \<Rightarrow> string \<Rightarrow> string \<Rightarrow> string \<Rightarrow> string option \<Rightarrow> world \<Rightarrow> response \<times> world" where
  "resolve_media cfg e kind url api_key quality w =
     (case check_api_key e api_key w of
        (Inl x, w1) \<Rightarrow> (Raised x, w1)
      | (Inr _, w1) \<Rightarrow>
         (let yt_url = normalize_youtube_input url in
          case py_or (extract_vidid url) (extract_vidid yt_url) of
            None \<Rightarrow> (JSONResponse 400 ''Invalid YouTube URL or ID'', w1)
          | Some vidid \<Rightarrow>
             if vidid = [] then (JSONResponse 400 ''Invalid YouTube URL or ID'', w1)
             else
              (case get_cached_file vidid kind w1 of
                 (Some cached, w2) \<Rightarrow>
                   (Success \<lparr>res_title = meta_get (c_meta cached) ''title'',
                      res_duration = meta_get (c_meta cached) ''duration'',
                      res_quality = meta_get (c_meta cached) ''quality'',
                      res_source = ''telegram_cache'',
                      res_url = get_telegram_download_url cfg e (c_file_id cached),
                      res_file_id = Some (c_file_id cached),
                      res_telegram_msg = Some \<lparr>tm_chat_id = c_chat_id cached,
                        tm_msg_id = c_msg_id cached,
                        tm_tlink = tlink (c_chat_id cached) (c_msg_id cached)\<rparr>\<rparr>,
                    log_event (GetFile (c_file_id cached)) w2)
               | (None, w2) \<Rightarrow> resolve_origin cfg e kind vidid yt_url quality w2)))"

definition ytmp4 :: "config \<Rightarrow> env \<Rightarrow> string \<Rightarrow> string \<Rightarrow> string option \<Rightarrow> world \<Rightarrow> response \<times> world" where
  "ytmp4 cfg e url api_key quality w = resolve_media cfg e ''video'' url api_key quality w"

definition ytmp3 :: "config \<Rightarrow> env \<Rightarrow> string \<Rightarrow> string \<Rightarrow> string option \<Rightarrow> world \<Rightarrow> response \<times> world" where
  "ytmp3 cfg e url api_key quality w = resolve_media cfg e ''audio'' url api_key quality w"

text \<open>The quality field of a response, if it has one.\<close>

fun response_quality :: "response \<Rightarrow> string option" where
  "response_quality (Success r) = res_quality r"
| "response_quality (Raised x) = None"
| "response_quality (JSONResponse code msg) = None"

section \<open>Payload decoding\<close>

text \<open>
  Bytes are 8-bit words. The key is a module constant:
  \<^verbatim>\<open>AES_KEY_BYTES = bytes.fromhex("C5D58EF67A7584E4A29F6C35BBC4EB12")\<close>.
\<close>

type_synonym byte = "8 word"

definition AES_KEY_BYTES :: "byte list" where
  "AES_KEY_BYTES = [0xC5, 0xD5, 0x8E, 0xF6, 0x7A, 0x75, 0x84, 0xE4,
                    0xA2, 0x9F, 0x6C, 0x35, 0xBB, 0xC4, 0xEB, 0x12]"

text \<open>
  \<^verbatim>\<open>decrypt_savetube_data\<close> calls three library codecs, which are parameters here:
  \<^verbatim>\<open>base64.b64decode\<close> (\<open>None\<close> when it raises), the decryption of one 16-byte block
  under a key by the block cipher, and \<^verbatim>\<open>json.loads(x.decode())\<close> (\<open>None\<close> when the
  decoding or the parse raises). The document type is a parameter too.
\<close>

record 'doc library =
  b64decode :: "string \<Rightarrow> byte list option"
  decrypt_block :: "byte list \<Rightarrow> byte list \<Rightarrow> byte list"
  json_loads :: "byte list \<Rightarrow> 'doc option"

definition xor_bytes :: "byte list \<Rightarrow> byte list \<Rightarrow> byte list" where
  "xor_bytes a b = map2 (XOR) a b"

text \<open>
  Cipher-block chaining, \<open>n\<close> blocks of 16 bytes: each plaintext block is the decrypted
  ciphertext block combined with the previous ciphertext block, the first with the
  initialization vector.
\<close>

fun cbc_decrypt_blocks ::
  "(byte list \<Rightarrow> byte list) \<Rightarrow> nat \<Rightarrow> byte list \<Rightarrow> byte list \<Rightarrow> byte list" where
  "cbc_decrypt_blocks D 0 prev ct = []"
| "cbc_decrypt_blocks D (Suc n) prev ct =
     xor_bytes (D (take 16 ct)) prev @ cbc_decrypt_blocks D n (take 16 ct) (drop 16 ct)"

text \<open>
  \<^verbatim>\<open>cipher = AES.new(AES_KEY_BYTES, AES.MODE_CBC, iv=iv); cipher.decrypt(ciphertext)\<close>:
  the constructor raises unless the vector has 16 bytes, and \<^verbatim>\<open>decrypt\<close> raises unless the
  length of the ciphertext is a multiple of 16.
\<close>

definition cbc_decrypt ::
  "(byte list \<Rightarrow> byte list \<Rightarrow> byte list) \<Rightarrow> byte list \<Rightarrow> byte list \<Rightarrow> byte list
     \<Rightarrow> exn + byte list" where
  "cbc_decrypt D k iv ciphertext =
     (if length iv \<noteq> 16 then Inl (Error ''Incorrect IV length (it must be 16 bytes long)'')
      else if length ciphertext mod 16 \<noteq> 0
      then Inl (Error ''Data must be padded to 16 byte boundary in CBC mode'')
      else Inr (cbc_decrypt_blocks (D k) (length ciphertext div 16) iv ciphertext))"

text \<open>
  \<^verbatim>\<open>unpad(padded_data, block_size, style='pkcs7')\<close> of the cryptography library: the last
  byte is the padding length; it must lie between 1 and the block size, and the last that
  many bytes must all equal it.
\<close>

definition unpad :: "byte list \<Rightarrow> nat \<Rightarrow> exn + byte list" where
  "unpad padded_data block_size =
     (let pdata_len = length padded_data in
      if pdata_len = 0 then Inl (Error ''Zero-length input cannot be unpadded'')
      else if pdata_len mod block_size \<noteq> 0 then Inl (Error ''Input data is not padded'')
      else
        (let padding_len = unat (last padded_data) in
         if padding_len < 1 \<or> padding_len > min block_size pdata_len
         then Inl (Error ''Padding is incorrect.'')
         else if drop (pdata_len - padding_len) padded_data
                   \<noteq> replicate padding_len (of_nat padding_len)
         then Inl (Error ''PKCS#7 padding is incorrect.'')
         else Inr (take (pdata_len - padding_len) padded_data)))"

text \<open>
  \<^verbatim>\<open>
  def decrypt_savetube_data(b64_encrypted: str) -> dict:
      try:
          raw = base64.b64decode(b64_encrypted)
          iv = raw[:16]
          ciphertext = raw[16:]
          cipher = AES.new(AES_KEY_BYTES, AES.MODE_CBC, iv=iv)
          decrypted = cipher.decrypt(ciphertext)
          unpadded = unpad(decrypted, 16, style='pkcs7')
          return json.loads(unpadded.decode())
      except Exception as e:
          logger.error(f"Decryption failed: {e}")
          raise
  \<close>
\<close>

definition decrypt_savetube_data :: "'doc library \<Rightarrow> string \<Rightarrow> exn + 'doc" where
  "decrypt_savetube_data lib b64_encrypted =
     (case b64decode lib b64_encrypted of
        None \<Rightarrow> Inl (Error ''Invalid base64-encoded string'')
      | Some raw \<Rightarrow>
         (let iv = take 16 raw; ciphertext = drop 16 raw in
          case cbc_decrypt (decrypt_block lib) AES_KEY_BYTES iv ciphertext of
            Inl x \<Rightarrow> Inl x
          | Inr decrypted \<Rightarrow>
             (case unpad decrypted 16 of
                Inl x \<Rightarrow> Inl x
              | Inr unpadded \<Rightarrow>
                 (case json_loads lib unpadded of
                    None \<Rightarrow> Inl (Error ''Invalid JSON document'')
                  | Some doc \<Rightarrow> Inr doc))))"

text \<open>
  The encryption scheme of the origin, which is not part of the source; these definitions
  follow the specification's words. PKCS#7 padding appends \<open>n\<close> bytes of value \<open>n\<close> to
  reach the next multiple of 16, a whole block when the length already is one. Chaining
  encrypts each plaintext block combined with the previous ciphertext block. The payload
  is the base64 text of the initialization vector followed by the ciphertext. The base64
  encoder, the encryption of one block and the serializer of documents are parameters.
\<close>

definition pkcs7_pad :: "byte list \<Rightarrow> byte list" where
  "pkcs7_pad d = d @ replicate (16 - length d mod 16) (of_nat (16 - length d mod 16))"

fun cbc_encrypt_blocks ::
  "(byte list \<Rightarrow> byte list) \<Rightarrow> nat \<Rightarrow> byte list \<Rightarrow> byte list \<Rightarrow> byte list" where
  "cbc_encrypt_blocks E 0 prev pt = []"
| "cbc_encrypt_blocks E (Suc n) prev pt =
     E (xor_bytes (take 16 pt) prev)
       @ cbc_encrypt_blocks E n (E (xor_bytes (take 16 pt) prev)) (drop 16 pt)"

definition spec_encrypt_payload ::
  "(byte list \<Rightarrow> string) \<Rightarrow> (byte list \<Rightarrow> byte list \<Rightarrow> byte list) \<Rightarrow> ('doc \<Rightarrow> byte list)
     \<Rightarrow> byte list \<Rightarrow> 'doc \<Rightarrow> string" where
  "spec_encrypt_payload b64encode E dumps iv doc =
     b64encode (iv @ cbc_encrypt_blocks (E AES_KEY_BYTES)
                       (length (pkcs7_pad (dumps doc)) div 16) iv (pkcs7_pad (dumps doc)))"

section \<open>Concrete inputs\<close>

text \<open>A configuration with the defaults of the source, and a metadata document, for the
  concrete evaluations below.\<close>

definition example_config :: config where
  "example_config = \<lparr>CACHE_CHANNEL_ID = -1001234, BOT_TOKEN = ''tok'', DEFAULT_VIDEO_QUALITY = ''720'',
     DEFAULT_AUDIO_QUALITY = ''320'', DOWNLOAD_DIR = ''./downloads''\<rparr>"

definition example_renditions :: "format list" where
  "example_renditions =
     [\<lparr>f_type = Some ''video'', f_height = Some 480, f_bitrate = None\<rparr>,
      \<lparr>f_type = Some ''audio'', f_height = None, f_bitrate = Some 128\<rparr>,
      \<lparr>f_type = Some ''video'', f_height = Some 720, f_bitrate = None\<rparr>,
      \<lparr>f_type = Some ''video'', f_height = Some 1080, f_bitrate = None\<rparr>]"

definition example_metadata :: "format list option \<Rightarrow> decrypted" where
  "example_metadata fs = \<lparr>d_title = Some ''t'', d_durationLabel = None, d_thumbnail = None,
     d_key = Some ''k'', d_formats = fs\<rparr>"

text \<open>The state of a process that has just started with empty collections, and a cache
  document, for the concrete evaluations below.\<close>

definition empty_world :: world where
  "empty_world = \<lparr>apikeys = Map.empty, cache = Map.empty, IN_MEMORY_CACHE = Map.empty,
     PROCESSING_SET = {}, files = {}, trace = [], tasks = []\<rparr>"

definition example_doc :: cache_doc where
  "example_doc = \<lparr>c_ytid = ''dQw4w9WgXcQ'', c_type = ''video'', c_file_id = ''F1'',
     c_chat_id = -1001234, c_msg_id = 7, c_file_name = ''dQw4w9WgXcQ_video_720.mp4'',
     c_meta = [''title'' \<mapsto> Some ''T'', ''quality'' \<mapsto> Some ''720''], c_cached_at = 1000\<rparr>"

text \<open>An environment in which the origin answers with the example metadata, and a stored
  access token with quota 2 whose last use was on an earlier day.\<close>

definition example_env :: env where
  "example_env = \<lparr>utcnow = 100, today = ''2026-11-04'', fromisoformat = (\<lambda>s. None),
     savetube_info = (\<lambda>u. Inr (example_metadata (Some example_renditions))),
     savetube_download = (\<lambda>k q t. Inr (''https://cdn.example/'' @ q)),
     get_file = (\<lambda>f. None), get_file_http = (\<lambda>f. None)\<rparr>"

definition example_record :: api_record where
  "example_record = \<lparr>ak_key = ''abc'', ak_owner = ''user'', ak_daily_limit = Some 2,
     ak_used_today = Some 2, ak_last_used_date = Some ''2026-11-03'',
     ak_expiry_date = Some (ExpiryTime 200), ak_is_admin = False, ak_created_at = 0\<rparr>"

text \<open>The empty process state with the example token stored.\<close>

definition example_world :: world where
  "example_world = empty_world\<lparr>apikeys := [''abc'' \<mapsto> example_record]\<rparr>"

text \<open>An archival task and the outcomes of a run whose upload fails after the download
  has written the temporary file.\<close>

definition example_task :: task where
  "example_task = \<lparr>t_ytid = ''dQw4w9WgXcQ'', t_media_type = ''video'',
     t_download_url = ''https://cdn.example/720'', t_title = ''T'', t_quality = ''720'',
     t_meta = Map.empty\<rparr>"

definition upload_fails :: outcomes where
  "upload_fails = \<lparr>o_download = Downloaded, o_upload = Inl (Error ''upload failed''),
     o_db_ok = True, o_remove_ok = True, o_now = 1000\<rparr>"

definition all_succeed :: outcomes where
  "all_succeed = \<lparr>o_download = Downloaded, o_upload = Inr (''F1'', 7),
     o_db_ok = True, o_remove_ok = True, o_now = 1000\<rparr>"

text \<open>Two calls of the archiver for the same pair, as two requests for one video dispatch
  them, in the state of a fresh process.\<close>

definition two_calls :: "proc list \<times> world" where
  "two_calls = ([new_proc example_task all_succeed,
                 new_proc (example_task\<lparr>t_download_url := ''https://cdn.example/other''\<rparr>) all_succeed],
                empty_world)"

text \<open>A library for the concrete evaluations below: a one-character-per-byte text encoding
  behind a marker, a block cipher that combines the block with the key, and documents that
  are their own non-empty byte text.\<close>

definition example_b64encode :: "byte list \<Rightarrow> string" where
  "example_b64encode x = CHR ''b'' # map (\<lambda>b. char_of (unat b)) x"

definition example_encrypt_block :: "byte list \<Rightarrow> byte list \<Rightarrow> byte list" where
  "example_encrypt_block k blk = xor_bytes blk k"

definition example_library :: "byte list library" where
  "example_library =
     \<lparr>b64decode = (\<lambda>s. case s of [] \<Rightarrow> None
                        | c # r \<Rightarrow> if c = CHR ''b'' then Some (map (\<lambda>c. of_nat (of_char c)) r) else None),
      decrypt_block = (\<lambda>k blk. xor_bytes blk k),
      json_loads = (\<lambda>x. if x = [] then None else Some x)\<rparr>"

definition example_iv :: "byte list" where
  "example_iv = replicate 16 1"

section \<open>Properties of the matcher\<close>

lemma rmatch_Times_Cls:
  "rmatch (Times n (Cls P)) (s, g) =
     (if n \<le> length s \<and> list_all P (take n s) then [(drop n s, g)] else [])"
proof (induction n arbitrary: s)
  case 0
  show ?case by simp
next
  case (Suc n)
  show ?case
  proof (cases s)
    case Nil
    then show ?thesis by simp
  next
    case (Cons x xs)
    then show ?thesis using Suc.IH [of xs] by simp
  qed
qed

lemma rmatch_id_group:
  "rmatch (Group (Times 11 (Cls id_char))) (s, g) =
     (if 11 \<le> length s \<and> list_all id_char (take 11 s) then [(drop 11 s, Some (take 11 s))] else [])"
  by (simp add: rmatch_Times_Cls)

lemma rmatch_Cat_id_group:
  assumes "m \<in> set (rmatch (Cat a (Group (Times 11 (Cls id_char)))) x)"
  shows "\<exists>v. snd m = Some v \<and> well_formed_id v"
proof -
  obtain s g where x: "x = (s, g)" by (cases x)
  from assms obtain y where "y \<in> set (rmatch a (s, g))"
    and m: "m \<in> set (rmatch (Group (Times 11 (Cls id_char))) y)"
    unfolding x by auto
  obtain s' g' where y: "y = (s', g')" by (cases y)
  from m show ?thesis unfolding y rmatch_id_group
    by (auto simp: well_formed_id_def split: if_splits)
qed

lemma rmatch_Cat_snd:
  assumes "m \<in> set (rmatch (Cat a b) x)"
  shows "\<exists>y. m \<in> set (rmatch b y)"
proof -
  obtain s g where x: "x = (s, g)" by (cases x)
  from assms show ?thesis unfolding x by auto
qed

lemma rmatch_YT_RE_group:
  assumes "m \<in> set (rmatch YT_RE x)"
  shows "\<exists>v. snd m = Some v \<and> well_formed_id v"
proof -
  from assms obtain y where "m \<in> set (rmatch (Cat (Opt (Lit ''www.''))
    (Cat (Opt (Alt (Cat (Lit ''youtube.com/'')
                        (Alt (Lit ''watch?v='') (Alt (Lit ''embed/'') (Lit ''shorts/''))))
                   (Lit ''youtu.be/'')))
         (Group (Times 11 (Cls id_char))))) y)"
    unfolding YT_RE_def by (blast dest: rmatch_Cat_snd)
  then obtain z where "m \<in> set (rmatch 
    (Cat (Opt (Alt (Cat (Lit ''youtube.com/'')
                        (Alt (Lit ''watch?v='') (Alt (Lit ''embed/'') (Lit ''shorts/''))))
                   (Lit ''youtu.be/'')))
         (Group (Times 11 (Cls id_char)))) z)"
    by (blast dest: rmatch_Cat_snd)
  then show ?thesis by (rule rmatch_Cat_id_group)
qed

lemma re_search_Some:
  "re_search r s = Some g \<Longrightarrow> \<exists>s' rest ms. rmatch r (s', None) = (rest, g) # ms"
proof (induction s)
  case Nil
  then show ?case by (cases "rmatch r ([], None)") auto
next
  case (Cons x xs)
  show ?case
  proof (cases "rmatch r (x # xs, None)")
    case Nil
    with Cons show ?thesis by simp
  next
    case (Cons m ms)
    with Cons.prems have "m = (fst m, g)" by (cases m) simp
    with Cons show ?thesis by metis
  qed
qed

lemma re_search_YT_RE_Some:
  "re_search YT_RE s = Some g \<Longrightarrow> \<exists>v. g = Some v \<and> well_formed_id v"
proof -
  assume "re_search YT_RE s = Some g"
  then obtain s' rest ms where "rmatch YT_RE (s', None) = (rest, g) # ms"
    using re_search_Some by blast
  then have "(rest, g) \<in> set (rmatch YT_RE (s', None))" by simp
  from rmatch_YT_RE_group [OF this] show ?thesis by simp
qed

lemma strip_lit_Some: "strip_lit l s = Some r \<longleftrightarrow> s = l @ r"
  by (induction l s rule: strip_lit.induct) auto

lemma rmatch_suffix:
  "(r, g') \<in> set (rmatch a (s, g)) \<Longrightarrow> \<exists>l. s = l @ r"
proof (induction a "(s, g)" arbitrary: s g r g' rule: rmatch.induct)
  case (1 l s g)
  then show ?case by (cases "strip_lit l s") (auto simp: strip_lit_Some)
next
  case (2 P s g)
  then show ?case by (auto split: list.splits if_splits)
next
  case (3 a b s g)
  from 3(3) obtain s1 g1 where y: "(s1, g1) \<in> set (rmatch a (s, g))"
    and m: "(r, g') \<in> set (rmatch b (s1, g1))"
    by auto
  from 3(1) [OF y] obtain l1 where "s = l1 @ s1" by auto
  moreover from 3(2) [OF y m] obtain l2 where "s1 = l2 @ r" by auto
  ultimately show ?case by auto
next
  case (4 a b s g)
  then show ?case by fastforce
next
  case (5 a s g)
  then show ?case by fastforce
next
  case (6 a s g)
  then show ?case by auto
next
  case (7 n a s g)
  from 7(3) obtain s1 g1 where y: "(s1, g1) \<in> set (rmatch a (s, g))"
    and m: "(r, g') \<in> set (rmatch (Times n a) (s1, g1))"
    by auto
  from 7(1) [OF y] obtain l1 where "s = l1 @ s1" by auto
  moreover from 7(2) [OF y m] obtain l2 where "s1 = l2 @ r" by auto
  ultimately show ?case by auto
next
  case (8 a s g)
  then show ?case by fastforce
qed

lemma rmatch_YT_RE_shape:
  assumes "p \<in> set url_shapes" and "well_formed_id v"
  shows "\<exists>ms. rmatch YT_RE (p @ v @ t, None) = (t, Some v) # ms"
proof -
  from assms(1) have "p \<in> {''youtube.com/watch?v='', ''youtube.com/embed/'', ''youtube.com/shorts/'',
      ''youtu.be/'', ''www.youtube.com/watch?v='', ''www.youtube.com/embed/'',
      ''www.youtube.com/shorts/'', ''www.youtu.be/'', ''http://youtube.com/watch?v='',
      ''http://youtube.com/embed/'', ''http://youtube.com/shorts/'', ''http://youtu.be/'',
      ''http://www.youtube.com/watch?v='', ''http://www.youtube.com/embed/'',
      ''http://www.youtube.com/shorts/'', ''http://www.youtu.be/'',
      ''https://youtube.com/watch?v='', ''https://youtube.com/embed/'',
      ''https://youtube.com/shorts/'', ''https://youtu.be/'',
      ''https://www.youtube.com/watch?v='', ''https://www.youtube.com/embed/'',
      ''https://www.youtube.com/shorts/'', ''https://www.youtu.be/''}"
    by (simp add: url_shapes_def)
  then show ?thesis
    using assms(2)
    apply (elim insertE emptyE)
    apply (simp_all del: rmatch.simps(8) add: YT_RE_def rmatch_id_group well_formed_id_def id_char_def)
    done
qed

lemma re_search_head:
  "rmatch r (s, None) = (rest, g) # ms \<Longrightarrow> re_search r s = Some g"
  by (cases s) simp_all

lemma re_search_None_iff:
  "re_search r s = None \<longleftrightarrow> (\<forall>k \<le> length s. rmatch r (drop k s, None) = [])"
proof (induction s)
  case Nil
  show ?case by (auto split: list.splits)
next
  case (Cons x xs)
  have "(\<forall>k \<le> length (x # xs). rmatch r (drop k (x # xs), None) = []) \<longleftrightarrow>
        rmatch r (x # xs, None) = [] \<and> (\<forall>k \<le> length xs. rmatch r (drop k xs, None) = [])"
    (is "?L \<longleftrightarrow> ?R")
  proof
    assume L: ?L
    from L [rule_format, of 0] have a: "rmatch r (x # xs, None) = []" by simp
    have "rmatch r (drop k xs, None) = []" if "k \<le> length xs" for k
      using L [rule_format, of "Suc k"] that by simp
    with a show ?R by simp
  next
    assume R: ?R
    show ?L
    proof (intro allI impI)
      fix k assume "k \<le> length (x # xs)"
      then show "rmatch r (drop k (x # xs), None) = []"
        using R by (cases k) auto
    qed
  qed
  with Cons show ?case by (auto split: list.splits)
qed

lemma id_char_not_space: "id_char c \<Longrightarrow> \<not> is_space c"
  by (auto simp: id_char_def is_space_def Let_def)

lemma py_strip_self:
  assumes "s \<noteq> []" "\<not> is_space (hd s)" "\<not> is_space (last s)"
  shows "py_strip s = s"
proof -
  have "dropWhile is_space s = s" using assms by (cases s) auto
  moreover have "dropWhile is_space (rev s) = rev s"
    using assms by (cases "rev s") (auto simp: last_rev hd_rev)
  ultimately show ?thesis by (simp add: py_strip_def)
qed

lemma py_strip_cases:
  "py_strip s = [] \<or> (\<not> is_space (hd (py_strip s)) \<and> \<not> is_space (last (py_strip s)))"
proof -
  define a where "a = dropWhile is_space s"
  define b where "b = dropWhile is_space (rev a)"
  have ps: "py_strip s = rev b" by (simp add: py_strip_def a_def b_def)
  show ?thesis
  proof (cases "b = []")
    case True
    then show ?thesis by (simp add: ps)
  next
    case False
    then have hb: "\<not> is_space (hd b)" unfolding b_def by (rule hd_dropWhile)
    from False have "a \<noteq> []" by (auto simp: b_def)
    then have ha: "\<not> is_space (hd a)" unfolding a_def by (rule hd_dropWhile)
    have "last b = last (rev a)"
      using False unfolding b_def
      by (metis append_Nil2 last_appendR takeWhile_dropWhile_id)
    then have "last b = hd a" using \<open>a \<noteq> []\<close> by (simp add: last_rev)
    with ha hb False show ?thesis by (simp add: ps hd_rev last_rev)
  qed
qed

lemma py_strip_idem: "py_strip (py_strip s) = py_strip s"
proof (cases "py_strip s = []")
  case True
  have "py_strip [] = []" by (simp add: py_strip_def)
  with True show ?thesis by simp
next
  case False
  with py_strip_cases [of s] show ?thesis by (intro py_strip_self) auto
qed


lemma last_id_not_space: "well_formed_id v \<Longrightarrow> v \<noteq> [] \<and> \<not> is_space (last v) \<and> \<not> is_space (hd v)"
proof -
  assume wf: "well_formed_id v"
  then have ne: "v \<noteq> []" by (auto simp: well_formed_id_def)
  then have "last v \<in> set v" "hd v \<in> set v" by simp_all
  with wf have "id_char (last v)" "id_char (hd v)" by (auto simp: well_formed_id_def list_all_iff)
  with ne show ?thesis by (simp add: id_char_not_space)
qed

lemma py_strip_watch_url: "well_formed_id v \<Longrightarrow> py_strip (watch_url v) = watch_url v"
  by (rule py_strip_self) (auto simp: watch_url_def is_space_def dest: last_id_not_space)

lemma re_search_watch_url: "well_formed_id v \<Longrightarrow> re_search YT_RE (watch_url v) = Some (Some v)"
proof -
  assume wf: "well_formed_id v"
  have "''https://www.youtube.com/watch?v='' \<in> set url_shapes" by (simp add: url_shapes_def)
  from rmatch_YT_RE_shape [OF this wf, of "[]"] show ?thesis
    by (auto simp: watch_url_def dest: re_search_head)
qed

lemma normalize_watch_url:
  "well_formed_id v \<Longrightarrow> normalize_youtube_input (watch_url v) = watch_url v"
  by (simp add: normalize_youtube_input_def py_strip_watch_url re_search_watch_url)

lemma re_fullmatch_ID_RE: "re_fullmatch ID_RE s \<longleftrightarrow> well_formed_id s"
  by (auto simp: re_fullmatch_def ID_RE_def rmatch_Times_Cls well_formed_id_def)

lemma url_shape_head: "p \<in> set url_shapes \<Longrightarrow> p \<noteq> [] \<and> \<not> is_space (hd p)"
  by (auto simp: url_shapes_def is_space_def)

lemma extract_vidid_url_shape:
  assumes "p \<in> set url_shapes" and "well_formed_id v"
  shows "extract_vidid (p @ v) = Some v"
proof -
  from assms(2) have v: "v \<noteq> []" "\<not> is_space (last v)" by (auto dest: last_id_not_space)
  from url_shape_head [OF assms(1)] v have "py_strip (p @ v) = p @ v"
    by (intro py_strip_self) auto
  moreover from rmatch_YT_RE_shape [OF assms, of "[]"]
  have "re_search YT_RE (p @ v) = Some (Some v)" by (auto dest: re_search_head)
  ultimately show ?thesis by (simp add: extract_vidid_def)
qed

lemma rmatch_Cat_mem:
  "y \<in> set (rmatch a x) \<Longrightarrow> z \<in> set (rmatch b y) \<Longrightarrow> z \<in> set (rmatch (Cat a b) x)"
  by (cases x) auto

lemma rmatch_Cat_D:
  "m \<in> set (rmatch (Cat a b) x) \<Longrightarrow> \<exists>s1 g1. (s1, g1) \<in> set (rmatch a x) \<and> m \<in> set (rmatch b (s1, g1))"
  by (cases x) auto

lemma rmatch_Opt_skip: "x \<in> set (rmatch (Opt a) x)"
  by (cases x) simp

lemma rmatch_YT_RE_skip:
  assumes "11 \<le> length s" and "list_all id_char (take 11 s)"
  shows "(drop 11 s, Some (take 11 s)) \<in> set (rmatch YT_RE (s, g))"
  unfolding YT_RE_def
  by (intro rmatch_Cat_mem [OF rmatch_Opt_skip]) (simp del: rmatch.simps(8) add: rmatch_id_group assms)

lemma rmatch_YT_RE_capture:
  assumes "m \<in> set (rmatch YT_RE (s, g))"
  shows "\<exists>k. k + 11 \<le> length s \<and> list_all id_char (take 11 (drop k s)) \<and> m = (drop (k + 11) s, Some (take 11 (drop k s)))"
proof -
  let ?G = "Group (Times 11 (Cls id_char))"
  from rmatch_Cat_D [OF assms [unfolded YT_RE_def]] obtain s1 g1 where
    1: "(s1, g1) \<in> set (rmatch (Opt (Cat (Lit ''http'') (Cat (Opt (Lit ''s'')) (Lit ''://'')))) (s, g))"
    and r1: "m \<in> set (rmatch (Cat (Opt (Lit ''www.''))
      (Cat (Opt (Alt (Cat (Lit ''youtube.com/'')
                        (Alt (Lit ''watch?v='') (Alt (Lit ''embed/'') (Lit ''shorts/''))))
                   (Lit ''youtu.be/''))) ?G)) (s1, g1))"
    by blast
  from rmatch_Cat_D [OF r1] obtain s2 g2 where
    2: "(s2, g2) \<in> set (rmatch (Opt (Lit ''www.'')) (s1, g1))"
    and r2: "m \<in> set (rmatch
      (Cat (Opt (Alt (Cat (Lit ''youtube.com/'')
                        (Alt (Lit ''watch?v='') (Alt (Lit ''embed/'') (Lit ''shorts/''))))
                   (Lit ''youtu.be/''))) ?G) (s2, g2))"
    by blast
  from rmatch_Cat_D [OF r2] obtain s3 g3 where
    3: "(s3, g3) \<in> set (rmatch (Opt (Alt (Cat (Lit ''youtube.com/'')
                        (Alt (Lit ''watch?v='') (Alt (Lit ''embed/'') (Lit ''shorts/''))))
                   (Lit ''youtu.be/''))) (s2, g2))"
    and 4: "m \<in> set (rmatch ?G (s3, g3))"
    by blast
  from rmatch_suffix [OF 1] rmatch_suffix [OF 2] rmatch_suffix [OF 3]
  obtain l where l: "s = l @ s3" by auto
  from 4 have "11 \<le> length s3" "list_all id_char (take 11 s3)" "m = (drop 11 s3, Some (take 11 s3))"
    unfolding rmatch_id_group by (auto split: if_splits)
  with l show ?thesis by (intro exI [of _ "length l"]) (simp add: add.commute)
qed

lemma extract_vidid_bare:
  assumes "well_formed_id v"
  shows "extract_vidid v = Some v"
proof -
  from assms have len: "length v = 11" and ids: "list_all id_char v"
    by (simp_all add: well_formed_id_def)
  have strip: "py_strip v = v"
    using last_id_not_space [OF assms] by (intro py_strip_self) auto
  from rmatch_YT_RE_skip [of v None] len ids
  obtain m ms where ms: "rmatch YT_RE (v, None) = m # ms"
    by (cases "rmatch YT_RE (v, None)") auto
  then have "m \<in> set (rmatch YT_RE (v, None))" by simp
  from rmatch_YT_RE_capture [OF this] len have "m = ([], Some v)" by auto
  with ms have "re_search YT_RE v = Some (Some v)" by (auto dest: re_search_head)
  with strip show ?thesis by (simp add: extract_vidid_def)
qed

lemma extract_vidid_None_iff:
  "extract_vidid s = None \<longleftrightarrow>
     (\<forall>k. k + 11 \<le> length (py_strip s) \<longrightarrow> \<not> list_all id_char (take 11 (drop k (py_strip s))))"
proof -
  let ?t = "py_strip s"
  have a: "re_search YT_RE ?t = None \<longleftrightarrow>
     (\<forall>k. k + 11 \<le> length ?t \<longrightarrow> \<not> list_all id_char (take 11 (drop k ?t)))" (is "?L \<longleftrightarrow> ?R")
  proof
    assume L: ?L
    show ?R
    proof (intro allI impI notI)
      fix k assume k: "k + 11 \<le> length ?t" and "list_all id_char (take 11 (drop k ?t))"
      then have "11 \<le> length (drop k ?t)" "list_all id_char (take 11 (drop k ?t))"
        by simp_all
      from rmatch_YT_RE_skip [OF this, of None]
      have "rmatch YT_RE (drop k ?t, None) \<noteq> []" by auto
      moreover from L k have "rmatch YT_RE (drop k ?t, None) = []"
        by (simp add: re_search_None_iff)
      ultimately show False by simp
    qed
  next
    assume R: ?R
    have "rmatch YT_RE (drop k ?t, None) = []" for k
    proof (rule ccontr)
      assume "rmatch YT_RE (drop k ?t, None) \<noteq> []"
      then obtain m where "m \<in> set (rmatch YT_RE (drop k ?t, None))"
        by (cases "rmatch YT_RE (drop k ?t, None)") auto
      from rmatch_YT_RE_capture [OF this] obtain j where
        "j + 11 \<le> length (drop k ?t)" "list_all id_char (take 11 (drop j (drop k ?t)))" by auto
      with R [rule_format, of "j + k"] show False by (simp add: add.commute)
    qed
    then show ?L by (simp add: re_search_None_iff)
  qed
  have b: "re_fullmatch ID_RE ?t \<Longrightarrow> re_search YT_RE ?t \<noteq> None"
  proof -
    assume "re_fullmatch ID_RE ?t"
    then have "well_formed_id ?t" by (simp add: re_fullmatch_ID_RE)
    then have "0 + 11 \<le> length ?t \<and> list_all id_char (take 11 (drop 0 ?t))"
      by (simp add: well_formed_id_def)
    with a show ?thesis by blast
  qed
  have "extract_vidid s = None \<longleftrightarrow> re_search YT_RE ?t = None"
    using b re_search_YT_RE_Some [of ?t]
    by (cases "re_search YT_RE ?t") (auto simp: extract_vidid_def)
  with a show ?thesis by simp
qed

section \<open>Claims about the normalizer\<close>

text \<open>
  Claim C10. \<open>normalize_youtube_input\<close> is coherent with \<open>extract_vidid\<close> and idempotent:
  when \<open>extract_vidid s\<close> returns an identifier \<open>V\<close>, \<open>normalize_youtube_input s\<close> is
  exactly the canonical watch URL built from \<open>V\<close>; when it returns nothing,
  \<open>normalize_youtube_input s\<close> is the trimmed input, unchanged; and normalizing a second time
  changes nothing, for every input string.
\<close>

theorem normalize_coherent_idempotent:
  "(\<forall>V. extract_vidid s = Some V \<longrightarrow> normalize_youtube_input s = ''https://www.youtube.com/watch?v='' @ V)
   \<and> (extract_vidid s = None \<longrightarrow> normalize_youtube_input s = py_strip s)
   \<and> normalize_youtube_input (normalize_youtube_input s) = normalize_youtube_input s"
proof (cases "re_search YT_RE (py_strip s)")
  case None
  show ?thesis
  proof (cases "re_fullmatch ID_RE (py_strip s)")
    case True
    then have "well_formed_id (py_strip s)" by (simp add: re_fullmatch_ID_RE)
    then have "normalize_youtube_input (watch_url (py_strip s)) = watch_url (py_strip s)"
      by (rule normalize_watch_url)
    moreover have "normalize_youtube_input s = watch_url (py_strip s)"
      using None True by (simp add: normalize_youtube_input_def)
    moreover have "extract_vidid s = Some (py_strip s)"
      using None True by (simp add: extract_vidid_def)
    ultimately show ?thesis by (simp add: watch_url_def)
  next
    case False
    have n: "normalize_youtube_input s = py_strip s"
      using None False by (simp add: normalize_youtube_input_def)
    have "normalize_youtube_input (py_strip s) = py_strip s"
      using None False by (simp add: normalize_youtube_input_def py_strip_idem)
    moreover have "extract_vidid s = None"
      using None False by (simp add: extract_vidid_def)
    ultimately show ?thesis using n by simp
  qed
next
  case (Some g)
  then obtain v where g: "g = Some v" and wf: "well_formed_id v"
    using re_search_YT_RE_Some by blast
  have n: "normalize_youtube_input s = watch_url v"
    using Some g by (simp add: normalize_youtube_input_def)
  have e: "extract_vidid s = Some v"
    using Some g by (simp add: extract_vidid_def)
  from n e normalize_watch_url [OF wf] show ?thesis by (simp add: watch_url_def)
qed


theorem normalize_coherent_idempotent_witness:
  "extract_vidid ''  https://youtu.be/dQw4w9WgXcQ?t=1 '' = Some ''dQw4w9WgXcQ''
   \<and> normalize_youtube_input ''  https://youtu.be/dQw4w9WgXcQ?t=1 ''
       = ''https://www.youtube.com/watch?v=dQw4w9WgXcQ''
   \<and> extract_vidid ''  not a video '' = None
   \<and> normalize_youtube_input ''  not a video '' = ''not a video''
   \<and> normalize_youtube_input (normalize_youtube_input ''  not a video '')
       = normalize_youtube_input ''  not a video ''"
proof -
  have e1: "extract_vidid ''  https://youtu.be/dQw4w9WgXcQ?t=1 '' = Some ''dQw4w9WgXcQ''"
    by code_simp
  have e2: "extract_vidid ''  not a video '' = None"
    by code_simp
  have s2: "py_strip ''  not a video '' = ''not a video''"
    by code_simp
  from normalize_coherent_idempotent [of "''  https://youtu.be/dQw4w9WgXcQ?t=1 ''"] e1
  have n1: "normalize_youtube_input ''  https://youtu.be/dQw4w9WgXcQ?t=1 ''
       = ''https://www.youtube.com/watch?v=dQw4w9WgXcQ''" by simp
  from normalize_coherent_idempotent [of "''  not a video ''"] e2 s2
  have n2: "normalize_youtube_input ''  not a video '' = ''not a video''" by simp
  from normalize_coherent_idempotent [of "''  not a video ''"]
  have n3: "normalize_youtube_input (normalize_youtube_input ''  not a video '')
       = normalize_youtube_input ''  not a video ''" by blast
  from e1 n1 e2 n2 n3 show ?thesis by blast
qed

text \<open>
  Claim C4. For a well-formed identifier \<open>T\<close> (eleven characters of the class),
  \<open>extract_vidid\<close> returns \<open>T\<close> on every recognized URL shape holding \<open>T\<close> and on the
  bare \<open>T\<close> (lemmas \<open>extract_vidid_url_shape\<close> and \<open>extract_vidid_bare\<close>); and an input
  that is neither is to yield nothing. The last part fails: the search is not anchored and
  every prefix of the pattern is optional, so any run of eleven class characters is taken
  for an identifier (\<open>extract_vidid_None_iff\<close>), and the exact-length test that follows the
  search is never reached with a string the search refused. Twelve letters are neither a
  URL nor an 11-character token, and the first eleven come back.
\<close>

theorem extract_vidid_long_run:
  "extract_vidid ''abcdefghijkl'' = Some ''abcdefghijk''"
  by code_simp

section \<open>Quality selector: properties\<close>

lemma hd_insort_key:
  "hd (insort_key f x ys) = (if ys = [] \<or> f x \<le> f (hd ys) then x else hd ys)"
  by (cases ys) auto

lemma sort_key_Nil_iff: "sort_key f xs = [] \<longleftrightarrow> xs = []"
  by (metis length_0_conv length_sort)

lemma hd_sort_key_first_min:
  "xs \<noteq> [] \<Longrightarrow> \<exists>i<length xs. hd (sort_key f xs) = xs ! i
      \<and> (\<forall>j<length xs. f (xs ! i) \<le> f (xs ! j)) \<and> (\<forall>j<i. f (xs ! i) < f (xs ! j))"
proof (induction xs)
  case Nil
  then show ?case by simp
next
  case (Cons x xs)
  show ?case
  proof (cases "xs = []")
    case True
    then show ?thesis by simp
  next
    case False
    from Cons.IH [OF False] obtain i where i: "i < length xs"
      and h: "hd (sort_key f xs) = xs ! i"
      and mn: "\<forall>j<length xs. f (xs ! i) \<le> f (xs ! j)"
      and fst: "\<forall>j<i. f (xs ! i) < f (xs ! j)" by blast
    have hd_eq: "hd (sort_key f (x # xs)) = (if f x \<le> f (xs ! i) then x else xs ! i)"
      using False h by (simp add: hd_insort_key sort_key_Nil_iff)
    show ?thesis
    proof (cases "f x \<le> f (xs ! i)")
      case True
      have "\<forall>j<length (x # xs). f x \<le> f ((x # xs) ! j)"
      proof (intro allI impI)
        fix j assume "j < length (x # xs)"
        then show "f x \<le> f ((x # xs) ! j)"
          using True mn by (cases j) (auto intro: order_trans)
      qed
      with True hd_eq show ?thesis by (intro exI [of _ 0]) simp
    next
      case False
      have a: "\<forall>j<length (x # xs). f (xs ! i) \<le> f ((x # xs) ! j)"
      proof (intro allI impI)
        fix j assume "j < length (x # xs)"
        then show "f (xs ! i) \<le> f ((x # xs) ! j)"
          using False mn by (cases j) auto
      qed
      have b: "\<forall>j<Suc i. f (xs ! i) < f ((x # xs) ! j)"
      proof (intro allI impI)
        fix j assume "j < Suc i"
        then show "f (xs ! i) < f ((x # xs) ! j)"
          using False fst by (cases j) auto
      qed
      from False hd_eq a b i show ?thesis by (intro exI [of _ "Suc i"]) simp
    qed
  qed
qed


lemma hd_py_sort_desc:
  assumes "xs \<noteq> []"
  shows "\<exists>i<length xs. hd (py_sort_desc k xs) = xs ! i
      \<and> (\<forall>j<length xs. k (xs ! j) \<le> k (xs ! i)) \<and> (\<forall>j<i. k (xs ! j) < k (xs ! i))"
  using hd_sort_key_first_min [OF assms, of "\<lambda>x. - k x"] by (simp add: py_sort_desc_def)

text \<open>
  Claim C7. \<open>choose_best_quality\<close> is a function of the metadata document and the kind alone.
  It keeps the renditions of that kind; when none is left it returns the configured default
  of the kind; otherwise it returns the descriptor (height for video, bitrate for audio) of
  the rendition whose descriptor is greatest, the first such rendition in the document's
  order when several share the greatest value. The index \<open>i\<close> below is that rendition:
  no rendition has a greater descriptor and every earlier one has a smaller one. A rendition
  without the descriptor counts as 0 in the comparison, and the configured default is
  returned if it is the one selected.
\<close>

theorem choose_best_quality_spec:
  assumes "kind = ''video'' \<or> kind = ''audio''"
  shows "(renditions dec kind = [] \<longrightarrow> choose_best_quality cfg dec kind = default_quality cfg kind)
    \<and> (renditions dec kind \<noteq> [] \<longrightarrow>
        (\<exists>i<length (renditions dec kind).
            (\<forall>j<length (renditions dec kind).
                get_or (descriptor kind (renditions dec kind ! j)) 0
                  \<le> get_or (descriptor kind (renditions dec kind ! i)) 0)
          \<and> (\<forall>j<i. get_or (descriptor kind (renditions dec kind ! j)) 0
                  < get_or (descriptor kind (renditions dec kind ! i)) 0)
          \<and> choose_best_quality cfg dec kind =
              (case descriptor kind (renditions dec kind ! i) of
                 Some q \<Rightarrow> str_int q
               | None \<Rightarrow> default_quality cfg kind)))"
proof (cases "renditions dec kind = []")
  case True
  with assms show ?thesis
    by (auto simp: choose_best_quality_def renditions_def default_quality_def Let_def)
next
  case False
  let ?fs = "renditions dec kind"
  let ?k = "\<lambda>f. get_or (descriptor kind f) 0"
  from hd_py_sort_desc [OF False, of ?k] obtain i where i: "i < length ?fs"
    and h: "hd (py_sort_desc ?k ?fs) = ?fs ! i"
    and mx: "\<forall>j<length ?fs. ?k (?fs ! j) \<le> ?k (?fs ! i)"
    and fst: "\<forall>j<i. ?k (?fs ! j) < ?k (?fs ! i)" by blast
  have "choose_best_quality cfg dec kind =
      (case descriptor kind (hd (py_sort_desc ?k ?fs)) of
         Some q \<Rightarrow> str_int q | None \<Rightarrow> default_quality cfg kind)"
  proof -
    from assms show ?thesis
    proof
      assume "kind = ''video''"
      with False show ?thesis
        by (simp add: choose_best_quality_def renditions_def default_quality_def descriptor_def
            Let_def split: option.splits)
    next
      assume "kind = ''audio''"
      with False show ?thesis
        by (simp add: choose_best_quality_def renditions_def default_quality_def descriptor_def
            Let_def split: option.splits)
    qed
  qed
  with h i mx fst False show ?thesis by auto
qed


theorem choose_best_quality_spec_witness:
  "choose_best_quality example_config (example_metadata (Some example_renditions)) ''video'' = ''1080''
   \<and> choose_best_quality example_config (example_metadata (Some [])) ''video'' = ''720''"
proof -
  let ?d = "example_metadata (Some example_renditions)"
  let ?e = "example_metadata (Some [])"
  have r: "renditions ?d ''video'' =
     [\<lparr>f_type = Some ''video'', f_height = Some 480, f_bitrate = None\<rparr>,
      \<lparr>f_type = Some ''video'', f_height = Some 720, f_bitrate = None\<rparr>,
      \<lparr>f_type = Some ''video'', f_height = Some 1080, f_bitrate = None\<rparr>]"
    by (simp add: renditions_def example_metadata_def example_renditions_def get_or_def)
  have k: "''video'' = ''video'' \<or> ''video'' = ''audio''" by simp
  have ne: "renditions ?d ''video'' \<noteq> []" by (simp add: r)
  from choose_best_quality_spec [OF k, of ?d example_config, THEN conjunct2, THEN mp, OF ne]
  obtain i where i0: "i < length (renditions ?d ''video'')"
    and mx: "\<forall>j<length (renditions ?d ''video'').
                get_or (descriptor ''video'' (renditions ?d ''video'' ! j)) 0
                  \<le> get_or (descriptor ''video'' (renditions ?d ''video'' ! i)) 0"
    and res: "choose_best_quality example_config ?d ''video'' =
              (case descriptor ''video'' (renditions ?d ''video'' ! i) of
                 Some q \<Rightarrow> str_int q | None \<Rightarrow> default_quality example_config ''video'')"
    by blast
  from i0 have i: "i < 3" by (simp add: r)
  from i consider "i = 0" | "i = 1" | "i = 2" by linarith
  then have "i = 2"
  proof cases
    case 1
    with mx [rule_format, of 2] show ?thesis by (simp add: r descriptor_def get_or_def)
  next
    case 2
    with mx [rule_format, of 2] show ?thesis by (simp add: r descriptor_def get_or_def)
  next
    case 3
    then show ?thesis .
  qed
  have s: "str_int 1080 = ''1080''" by code_simp
  from res \<open>i = 2\<close> have a: "choose_best_quality example_config ?d ''video'' = ''1080''"
    by (simp add: r descriptor_def s)
  have re: "renditions ?e ''video'' = []"
    by (simp add: renditions_def example_metadata_def get_or_def)
  from choose_best_quality_spec [OF k, of ?e example_config, THEN conjunct1, THEN mp, OF re]
  have b: "choose_best_quality example_config ?e ''video'' = ''720''"
    by (simp add: default_quality_def example_config_def)
  from a b show ?thesis by simp
qed

section \<open>Cache index: claims\<close>

text \<open>
  Claim C5. The cache index is read-through with a process-local fast path. When
  \<open>IN_MEMORY_CACHE\<close> holds the pair, \<open>get_cached_file\<close> returns that entry and leaves the
  state as it was, the record of completed store queries included, so the durable store is
  not asked. When the map misses and the store holds the pair, the store is queried once,
  the document is returned and the map holds it afterwards. And when \<open>save_cache_record\<close>
  has completed, the lookup that follows returns exactly the document just written, again
  without a store query.
\<close>

theorem cache_index_read_through:
  "(IN_MEMORY_CACHE w (cache_key ytid media_type) = Some d \<longrightarrow>
      get_cached_file ytid media_type w = (Some d, w))
   \<and> (IN_MEMORY_CACHE w (cache_key ytid media_type) = None \<and> cache w (ytid, media_type) = Some d \<longrightarrow>
      fst (get_cached_file ytid media_type w) = Some d
      \<and> IN_MEMORY_CACHE (snd (get_cached_file ytid media_type w)) (cache_key ytid media_type) = Some d
      \<and> trace (snd (get_cached_file ytid media_type w)) = trace w @ [CacheFind ytid media_type])
   \<and> (save_cache_record now db_ok ytid media_type file_id chat_id msg_id file_name meta w = (Inr doc, w1) \<longrightarrow>
      doc = \<lparr>c_ytid = ytid, c_type = media_type, c_file_id = file_id, c_chat_id = chat_id,
                 c_msg_id = msg_id, c_file_name = file_name, c_meta = meta, c_cached_at = now\<rparr>
      \<and> cache w1 (ytid, media_type) = Some doc
      \<and> get_cached_file ytid media_type w1 = (Some doc, w1))"
  by (auto simp: get_cached_file_def save_cache_record_def log_event_def Let_def split: if_splits)


theorem cache_index_read_through_witness:
  "get_cached_file ''dQw4w9WgXcQ'' ''video''
      (snd (save_cache_record 1000 True ''dQw4w9WgXcQ'' ''video'' ''F1'' (-1001234) 7
              ''dQw4w9WgXcQ_video_720.mp4'' [''title'' \<mapsto> Some ''T'', ''quality'' \<mapsto> Some ''720'']
              empty_world))
    = (Some example_doc,
       snd (save_cache_record 1000 True ''dQw4w9WgXcQ'' ''video'' ''F1'' (-1001234) 7
              ''dQw4w9WgXcQ_video_720.mp4'' [''title'' \<mapsto> Some ''T'', ''quality'' \<mapsto> Some ''720'']
              empty_world))
   \<and> fst (get_cached_file ''dQw4w9WgXcQ'' ''video''
        (empty_world\<lparr>cache := [(''dQw4w9WgXcQ'', ''video'') \<mapsto> example_doc]\<rparr>)) = Some example_doc
   \<and> get_cached_file ''dQw4w9WgXcQ'' ''video''
        (empty_world\<lparr>IN_MEMORY_CACHE := [''dQw4w9WgXcQ:video'' \<mapsto> example_doc]\<rparr>)
      = (Some example_doc, empty_world\<lparr>IN_MEMORY_CACHE := [''dQw4w9WgXcQ:video'' \<mapsto> example_doc]\<rparr>)"
proof -
  let ?save = "save_cache_record 1000 True ''dQw4w9WgXcQ'' ''video'' ''F1'' (-1001234) 7
              ''dQw4w9WgXcQ_video_720.mp4'' [''title'' \<mapsto> Some ''T'', ''quality'' \<mapsto> Some ''720'']
              empty_world"
  let ?wc = "empty_world\<lparr>cache := [(''dQw4w9WgXcQ'', ''video'') \<mapsto> example_doc]\<rparr>"
  let ?wm = "empty_world\<lparr>IN_MEMORY_CACHE := [''dQw4w9WgXcQ:video'' \<mapsto> example_doc]\<rparr>"
  have s: "?save = (Inr example_doc, snd ?save)"
    by (simp add: save_cache_record_def example_doc_def Let_def)
  have c: "IN_MEMORY_CACHE ?wc (cache_key ''dQw4w9WgXcQ'' ''video'') = None
      \<and> cache ?wc (''dQw4w9WgXcQ'', ''video'') = Some example_doc"
    by (simp add: empty_world_def)
  have m: "IN_MEMORY_CACHE ?wm (cache_key ''dQw4w9WgXcQ'' ''video'') = Some example_doc"
    by (simp add: empty_world_def cache_key_def)
  note t = cache_index_read_through
  from t [where w = empty_world and ?w1.0 = "snd ?save" and doc = example_doc,
      THEN conjunct2, THEN conjunct2, THEN mp, OF s]
  have 1: "get_cached_file ''dQw4w9WgXcQ'' ''video'' (snd ?save) = (Some example_doc, snd ?save)"
    by blast
  from t [where w = ?wc and ytid = "''dQw4w9WgXcQ''" and media_type = "''video''" and d = example_doc,
      THEN conjunct2, THEN conjunct1, THEN mp, OF c]
  have 2: "fst (get_cached_file ''dQw4w9WgXcQ'' ''video'' ?wc) = Some example_doc" by blast
  from t [where w = ?wm and ytid = "''dQw4w9WgXcQ''" and media_type = "''video''" and d = example_doc,
      THEN conjunct1, THEN mp, OF m]
  have 3: "get_cached_file ''dQw4w9WgXcQ'' ''video'' ?wm = (Some example_doc, ?wm)" .
  from 1 2 3 show ?thesis by blast
qed

section \<open>Admission gate: claims\<close>

lemma check_api_key_same_day:
  assumes "k \<noteq> []" and "apikeys w k = Some r" and "ak_last_used_date r = Some (today e)"
    and "check_expiry e (ak_expiry_date r) = None"
  shows "check_api_key e k w =
     (if get_or (ak_used_today r) 0 \<ge> get_or (ak_daily_limit r) 1000
      then (Inl (HTTPException 429 ''Daily limit reached''), log_event (ApikeysFind k) w)
      else (Inr r,
            log_event (ApikeysUpdate k)
              ((log_event (ApikeysFind k) w)
                 \<lparr>apikeys := (apikeys w)(k \<mapsto> r\<lparr>ak_used_today := Some (get_or (ak_used_today r) 0 + 1)\<rparr>)\<rparr>)))"
  using assms by (simp add: check_api_key_def update_one_apikey_def log_event_def Let_def)

lemma check_api_key_new_day:
  assumes "k \<noteq> []" and "apikeys w k = Some r" and "ak_last_used_date r \<noteq> Some (today e)"
    and "check_expiry e (ak_expiry_date r) = None"
  shows "check_api_key e k w =
     (if 0 \<ge> get_or (ak_daily_limit r) 1000
      then (Inl (HTTPException 429 ''Daily limit reached''),
            log_event (ApikeysUpdate k)
              ((log_event (ApikeysFind k) w)
                 \<lparr>apikeys := (apikeys w)(k \<mapsto> r\<lparr>ak_used_today := Some 0,
                        ak_last_used_date := Some (today e)\<rparr>)\<rparr>))
      else (Inr (r\<lparr>ak_used_today := Some 0\<rparr>),
            log_event (ApikeysUpdate k) (log_event (ApikeysUpdate k)
              ((log_event (ApikeysFind k) w)
                 \<lparr>apikeys := (apikeys w)(k \<mapsto> r\<lparr>ak_last_used_date := Some (today e),
                        ak_used_today := Some 1\<rparr>)\<rparr>))))"
  using assms by (simp add: check_api_key_def update_one_apikey_def log_event_def Let_def get_or_def)


lemma run_admissions_same_day:
  assumes "k \<noteq> []"
    and "apikeys w k = Some r"
    and "ak_last_used_date r = Some d"
    and "get_or (ak_used_today r) 0 = int c"
    and "get_or (ak_daily_limit r) 1000 = int N"
    and "c \<le> N"
    and "\<forall>e\<in>set es. today e = d \<and> check_expiry e (ak_expiry_date r) = None"
    and "i < length es"
  shows "(c + i < N \<longrightarrow>
            (\<exists>rec. fst (run_admissions es k w ! i) = Inr rec)
          \<and> used_count (snd (run_admissions es k w ! i)) k = int (c + i) + 1)
       \<and> (N \<le> c + i \<longrightarrow>
            fst (run_admissions es k w ! i) = Inl (HTTPException 429 ''Daily limit reached'')
          \<and> used_count (snd (run_admissions es k w ! i)) k = int N
          \<and> apikeys (snd (run_admissions es k w ! i))
              = apikeys (if i = 0 then w else snd (run_admissions es k w ! (i - 1))))"
  using assms
proof (induction es arbitrary: w r c i)
  case Nil
  then show ?case by simp
next
  case (Cons e es)
  from Cons.prems have e: "today e = d" "check_expiry e (ak_expiry_date r) = None"
    and es: "\<forall>e\<in>set es. today e = d \<and> check_expiry e (ak_expiry_date r) = None"
    by simp_all
  note step = check_api_key_same_day [OF Cons.prems(1) Cons.prems(2), of e]
  show ?case
  proof (cases "c < N")
    case True
    let ?r' = "r\<lparr>ak_used_today := Some (get_or (ak_used_today r) 0 + 1)\<rparr>"
    let ?w' = "log_event (ApikeysUpdate k)
              ((log_event (ApikeysFind k) w)\<lparr>apikeys := (apikeys w)(k \<mapsto> ?r')\<rparr>)"
    from True Cons.prems e step have s: "check_api_key e k w = (Inr r, ?w')" by simp
    have w': "apikeys ?w' k = Some ?r'" by (simp add: log_event_def)
    have c': "get_or (ak_used_today ?r') 0 = int (Suc c)"
      using Cons.prems(4) by (simp add: get_or_def)
    show ?thesis
    proof (cases i)
      case 0
      with s w' c' True show ?thesis by (simp add: used_count_def)
    next
      case (Suc j)
      with Cons.prems have j: "j < length es" by simp
      have l': "ak_last_used_date ?r' = Some d" using Cons.prems(3) by simp
      have lim': "get_or (ak_daily_limit ?r') 1000 = int N" using Cons.prems(5) by simp
      have cn: "Suc c \<le> N" using True by simp
      have es': "\<forall>e\<in>set es. today e = d \<and> check_expiry e (ak_expiry_date ?r') = None"
        using es by simp
      from Cons.IH [OF Cons.prems(1) w' l' c' lim' cn es' j]
      have ih: "(Suc c + j < N \<longrightarrow>
            (\<exists>rec. fst (run_admissions es k ?w' ! j) = Inr rec)
          \<and> used_count (snd (run_admissions es k ?w' ! j)) k = int (Suc c + j) + 1)
       \<and> (N \<le> Suc c + j \<longrightarrow>
            fst (run_admissions es k ?w' ! j) = Inl (HTTPException 429 ''Daily limit reached'')
          \<and> used_count (snd (run_admissions es k ?w' ! j)) k = int N
          \<and> apikeys (snd (run_admissions es k ?w' ! j))
              = apikeys (if j = 0 then ?w' else snd (run_admissions es k ?w' ! (j - 1))))"
        by simp
      have run: "run_admissions (e # es) k w = (Inr r, ?w') # run_admissions es k ?w'"
        using s by simp
      show ?thesis
        unfolding run Suc using ih by (cases j) simp_all
    qed
  next
    case False
    with Cons.prems have cN: "c = N" by simp
    let ?w' = "log_event (ApikeysFind k) w"
    from cN Cons.prems e step have s: "check_api_key e k w = (Inl (HTTPException 429 ''Daily limit reached''), ?w')"
      by simp
    have w': "apikeys ?w' k = Some r" using Cons.prems(2) by (simp add: log_event_def)
    have run: "run_admissions (e # es) k w = (Inl (HTTPException 429 ''Daily limit reached''), ?w') # run_admissions es k ?w'"
      using s by simp
    show ?thesis
    proof (cases i)
      case 0
      with cN Cons.prems(2,4) show ?thesis
        unfolding run by (simp add: used_count_def log_event_def)
    next
      case (Suc j)
      with Cons.prems have j: "j < length es" by simp
      from Cons.IH [OF Cons.prems(1) w' Cons.prems(3) Cons.prems(4) Cons.prems(5) Cons.prems(6) es j]
      have ih: "(c + j < N \<longrightarrow>
            (\<exists>rec. fst (run_admissions es k ?w' ! j) = Inr rec)
          \<and> used_count (snd (run_admissions es k ?w' ! j)) k = int (c + j) + 1)
       \<and> (N \<le> c + j \<longrightarrow>
            fst (run_admissions es k ?w' ! j) = Inl (HTTPException 429 ''Daily limit reached'')
          \<and> used_count (snd (run_admissions es k ?w' ! j)) k = int N
          \<and> apikeys (snd (run_admissions es k ?w' ! j))
              = apikeys (if j = 0 then ?w' else snd (run_admissions es k ?w' ! (j - 1))))" .
      show ?thesis
        unfolding run Suc using ih cN by (cases j) simp_all
    qed
  qed
qed


text \<open>
  Claim C1. Take a stored access token with daily quota \<open>N\<close> that has not been used on the
  canonical day \<open>d\<close> (its last-use date is another day, whatever its counter says, or its
  counter reads 0), and \<open>N + 1\<close> successive calls of \<open>check_api_key\<close> on day \<open>d\<close>, none of them
  after the token's expiry. The first \<open>N\<close> calls are admitted and the \<open>i\<close>-th of them leaves
  the stored counter at \<open>i\<close>; the call after them is rejected with status 429 and leaves the
  counter at \<open>N\<close>, the collection being exactly as the \<open>N\<close>-th admission left it. When the
  last-use date is another day, the first call resets the counter before the quota check:
  it is admitted whatever the old counter was, the record it returns carries counter 0, and
  the stored counter is 1 afterwards.
\<close>

theorem admission_quota:
  assumes "k \<noteq> []"
    and "apikeys w k = Some r"
    and "get_or (ak_daily_limit r) 1000 = int N"
    and "ak_last_used_date r \<noteq> Some d \<or> get_or (ak_used_today r) 0 = 0"
    and "length es = Suc N"
    and "\<forall>e\<in>set es. today e = d \<and> check_expiry e (ak_expiry_date r) = None"
  shows "(\<forall>i<N. (\<exists>rec. fst (run_admissions es k w ! i) = Inr rec)
              \<and> used_count (snd (run_admissions es k w ! i)) k = int i + 1)
     \<and> fst (run_admissions es k w ! N) = Inl (HTTPException 429 ''Daily limit reached'')
     \<and> used_count (snd (run_admissions es k w ! N)) k = int N
     \<and> (0 < N \<longrightarrow> apikeys (snd (run_admissions es k w ! N))
                    = apikeys (snd (run_admissions es k w ! (N - 1))))
     \<and> (0 < N \<and> ak_last_used_date r \<noteq> Some d \<longrightarrow>
           fst (run_admissions es k w ! 0) = Inr (r\<lparr>ak_used_today := Some 0\<rparr>))"
proof (cases "ak_last_used_date r = Some d")
  case True
  with assms(4) have u: "get_or (ak_used_today r) 0 = int 0" by simp
  note L = run_admissions_same_day [OF assms(1) assms(2) True u assms(3) _ assms(6)]
  have a: "\<forall>i<N. (\<exists>rec. fst (run_admissions es k w ! i) = Inr rec)
              \<and> used_count (snd (run_admissions es k w ! i)) k = int i + 1"
  proof (intro allI impI)
    fix i assume "i < N"
    with L [of i] assms(5) show "(\<exists>rec. fst (run_admissions es k w ! i) = Inr rec)
              \<and> used_count (snd (run_admissions es k w ! i)) k = int i + 1" by simp
  qed
  from L [of N] assms(5) have b: "fst (run_admissions es k w ! N) = Inl (HTTPException 429 ''Daily limit reached'')"
    "used_count (snd (run_admissions es k w ! N)) k = int N"
    "apikeys (snd (run_admissions es k w ! N))
        = apikeys (if N = 0 then w else snd (run_admissions es k w ! (N - 1)))" by simp_all
  from a b True show ?thesis by simp
next
  case False
  from assms(5) obtain e es' where es: "es = e # es'" and len: "length es' = N"
    by (cases es) auto
  from assms(6) es have e: "ak_last_used_date r \<noteq> Some (today e)"
    "check_expiry e (ak_expiry_date r) = None" "today e = d"
    and es': "\<forall>e\<in>set es'. today e = d \<and> check_expiry e (ak_expiry_date r) = None"
    using False by simp_all
  note first = check_api_key_new_day [OF assms(1) assms(2) e(1) e(2)]
  show ?thesis
  proof (cases "N = 0")
    case True
    with first assms(3) es e(3) show ?thesis
      by (simp add: used_count_def log_event_def get_or_def)
  next
    case N: False
    let ?r' = "r\<lparr>ak_last_used_date := Some d, ak_used_today := Some 1\<rparr>"
    let ?w' = "log_event (ApikeysUpdate k) (log_event (ApikeysUpdate k)
              ((log_event (ApikeysFind k) w)\<lparr>apikeys := (apikeys w)(k \<mapsto> ?r')\<rparr>))"
    from first N assms(3) e(3) have s: "check_api_key e k w = (Inr (r\<lparr>ak_used_today := Some 0\<rparr>), ?w')"
      by simp
    have run: "run_admissions es k w = (Inr (r\<lparr>ak_used_today := Some 0\<rparr>), ?w') # run_admissions es' k ?w'"
      using s es by simp
    have w': "apikeys ?w' k = Some ?r'" by (simp add: log_event_def)
    have l': "ak_last_used_date ?r' = Some d" by simp
    have c': "get_or (ak_used_today ?r') 0 = int 1" by (simp add: get_or_def)
    have lim': "get_or (ak_daily_limit ?r') 1000 = int N" using assms(3) by simp
    have cn: "1 \<le> N" using N by simp
    have es'': "\<forall>e\<in>set es'. today e = d \<and> check_expiry e (ak_expiry_date ?r') = None"
      using es' by simp
    note L = run_admissions_same_day [OF assms(1) w' l' c' lim' cn es'']
    have a: "\<forall>i<N. (\<exists>rec. fst (run_admissions es k w ! i) = Inr rec)
              \<and> used_count (snd (run_admissions es k w ! i)) k = int i + 1"
    proof (intro allI impI)
      fix i assume i: "i < N"
      show "(\<exists>rec. fst (run_admissions es k w ! i) = Inr rec)
              \<and> used_count (snd (run_admissions es k w ! i)) k = int i + 1"
      proof (cases i)
        case 0
        then show ?thesis unfolding run by (simp add: used_count_def log_event_def get_or_def)
      next
        case (Suc j)
        with i len L [of j] show ?thesis unfolding run by simp
      qed
    qed
    obtain M where M: "N = Suc M" using N by (cases N) auto
    from L [of M] len M
    have b: "fst (run_admissions es' k ?w' ! M) = Inl (HTTPException 429 ''Daily limit reached'')"
      "used_count (snd (run_admissions es' k ?w' ! M)) k = int N"
      "apikeys (snd (run_admissions es' k ?w' ! M))
        = apikeys (if M = 0 then ?w' else snd (run_admissions es' k ?w' ! (M - 1)))" by simp_all
    have prev: "snd (run_admissions es k w ! (N - 1))
        = (if M = 0 then ?w' else snd (run_admissions es' k ?w' ! (M - 1)))"
      unfolding run M by (cases M) simp_all
    have last: "run_admissions es k w ! N = run_admissions es' k ?w' ! M"
      unfolding run M by simp
    from a b prev last N show ?thesis unfolding run by simp
  qed
qed


theorem admission_quota_witness:
  "fst (run_admissions [example_env, example_env, example_env] ''abc''
          (empty_world\<lparr>apikeys := [''abc'' \<mapsto> example_record]\<rparr>) ! 0)
      = Inr (example_record\<lparr>ak_used_today := Some 0\<rparr>)
   \<and> used_count (snd (run_admissions [example_env, example_env, example_env] ''abc''
          (empty_world\<lparr>apikeys := [''abc'' \<mapsto> example_record]\<rparr>) ! 0)) ''abc'' = 1
   \<and> used_count (snd (run_admissions [example_env, example_env, example_env] ''abc''
          (empty_world\<lparr>apikeys := [''abc'' \<mapsto> example_record]\<rparr>) ! 1)) ''abc'' = 2
   \<and> fst (run_admissions [example_env, example_env, example_env] ''abc''
          (empty_world\<lparr>apikeys := [''abc'' \<mapsto> example_record]\<rparr>) ! 2)
      = Inl (HTTPException 429 ''Daily limit reached'')
   \<and> used_count (snd (run_admissions [example_env, example_env, example_env] ''abc''
          (empty_world\<lparr>apikeys := [''abc'' \<mapsto> example_record]\<rparr>) ! 2)) ''abc'' = 2"
proof -
  let ?w = "empty_world\<lparr>apikeys := [''abc'' \<mapsto> example_record]\<rparr>"
  let ?es = "[example_env, example_env, example_env]"
  have h1: "''abc'' \<noteq> []" by simp
  have h2: "apikeys ?w ''abc'' = Some example_record" by simp
  have h3: "get_or (ak_daily_limit example_record) 1000 = int 2"
    by (simp add: example_record_def get_or_def)
  have h4: "ak_last_used_date example_record \<noteq> Some ''2026-11-04''
      \<or> get_or (ak_used_today example_record) 0 = 0"
    by (simp add: example_record_def)
  have h5: "length ?es = Suc 2" by simp
  have h6: "\<forall>e\<in>set ?es. today e = ''2026-11-04''
      \<and> check_expiry e (ak_expiry_date example_record) = None"
    by (simp add: example_env_def example_record_def check_expiry_def)
  note T = admission_quota [OF h1 h2 h3 h4 h5 h6]
  from T [THEN conjunct1, rule_format, of 0]
  have a: "used_count (snd (run_admissions ?es ''abc'' ?w ! 0)) ''abc'' = 1" by simp
  from T [THEN conjunct1, rule_format, of 1]
  have b: "used_count (snd (run_admissions ?es ''abc'' ?w ! 1)) ''abc'' = 2" by simp
  from T have c: "fst (run_admissions ?es ''abc'' ?w ! 2) = Inl (HTTPException 429 ''Daily limit reached'')"
    and d: "used_count (snd (run_admissions ?es ''abc'' ?w ! 2)) ''abc'' = int 2" by blast+
  from T h4 have e: "fst (run_admissions ?es ''abc'' ?w ! 0) = Inr (example_record\<lparr>ak_used_today := Some 0\<rparr>)"
    by (simp add: example_record_def)
  from a b c d e show ?thesis by simp
qed

section \<open>Request handlers: claims\<close>

lemma extract_vidid_None_D:
  assumes "extract_vidid s = None"
  shows "re_search YT_RE (py_strip s) = None" and "\<not> re_fullmatch ID_RE (py_strip s)"
proof -
  show "re_search YT_RE (py_strip s) = None"
  proof (cases "re_search YT_RE (py_strip s)")
    case None
    then show ?thesis .
  next
    case (Some g)
    with re_search_YT_RE_Some [OF Some] assms show ?thesis by (auto simp: extract_vidid_def)
  qed
  with assms show "\<not> re_fullmatch ID_RE (py_strip s)"
    by (auto simp: extract_vidid_def split: if_splits)
qed

lemma extract_vidid_None_normalize:
  assumes "extract_vidid s = None"
  shows "extract_vidid (normalize_youtube_input s) = None"
proof -
  from extract_vidid_None_D [OF assms]
  have "normalize_youtube_input s = py_strip s" by (simp add: normalize_youtube_input_def)
  with extract_vidid_None_D [OF assms] show ?thesis
    by (simp add: extract_vidid_def py_strip_idem)
qed

lemma check_api_key_frame:
  "cache (snd (check_api_key e k w)) = cache w
   \<and> IN_MEMORY_CACHE (snd (check_api_key e k w)) = IN_MEMORY_CACHE w
   \<and> PROCESSING_SET (snd (check_api_key e k w)) = PROCESSING_SET w
   \<and> files (snd (check_api_key e k w)) = files w
   \<and> tasks (snd (check_api_key e k w)) = tasks w
   \<and> set (trace (snd (check_api_key e k w))) \<subseteq> set (trace w) \<union> {ApikeysFind k, ApikeysUpdate k}"
  by (auto simp: check_api_key_def update_one_apikey_def log_event_def Let_def
      split: if_splits option.splits)

lemma resolve_media_origin_quality:
  assumes "check_api_key e api_key w = (Inr record, w1)"
    and "py_or (extract_vidid url) (extract_vidid (normalize_youtube_input url)) = Some vidid"
    and "vidid \<noteq> []"
    and "get_cached_file vidid kind w1 = (None, w2)"
    and "savetube_info e (normalize_youtube_input url) = Inr dec"
    and "savetube_download e (d_key dec) (selected_quality cfg quality dec kind) kind = Inr download_url"
  shows "response_quality (fst (resolve_media cfg e kind url api_key quality w))
      = Some (selected_quality cfg quality dec kind)"
  using assms by (simp add: resolve_media_def resolve_origin_def Let_def)

lemma example_admission:
  "check_api_key example_env ''abc'' example_world
     = (Inr (example_record\<lparr>ak_used_today := Some 0\<rparr>),
        snd (check_api_key example_env ''abc'' example_world))"
proof -
  have "fst (check_api_key example_env ''abc'' example_world)
      = Inr (example_record\<lparr>ak_used_today := Some 0\<rparr>)"
    by (simp add: check_api_key_def example_world_def empty_world_def example_env_def
        example_record_def check_expiry_def get_or_def Let_def log_event_def update_one_apikey_def)
  then show ?thesis by (simp add: prod_eq_iff)
qed

lemma example_cache_miss:
  "get_cached_file ''dQw4w9WgXcQ'' ''video'' (snd (check_api_key example_env ''abc'' example_world))
     = (None, snd (get_cached_file ''dQw4w9WgXcQ'' ''video''
                     (snd (check_api_key example_env ''abc'' example_world))))"
proof -
  have "fst (get_cached_file ''dQw4w9WgXcQ'' ''video''
          (snd (check_api_key example_env ''abc'' example_world))) = None"
    using check_api_key_frame [of example_env "''abc''" example_world]
    by (simp add: get_cached_file_def example_world_def empty_world_def Let_def)
  then show ?thesis by (simp add: prod_eq_iff)
qed

lemma example_vidid:
  "py_or (extract_vidid ''https://youtu.be/dQw4w9WgXcQ'')
         (extract_vidid (normalize_youtube_input ''https://youtu.be/dQw4w9WgXcQ''))
     = Some ''dQw4w9WgXcQ''"
  by code_simp

lemma example_best: 
  "choose_best_quality example_config (example_metadata (Some example_renditions)) ''video'' = ''1080''"
  by code_simp

lemma resolve_media_invalid:
  assumes "check_api_key e api_key w = (Inr record, w1)"
    and "extract_vidid url = None"
  shows "resolve_media cfg e kind url api_key quality w
      = (JSONResponse 400 ''Invalid YouTube URL or ID'', w1)"
proof -
  from assms(2) extract_vidid_None_normalize [OF assms(2)]
  have "py_or (extract_vidid url) (extract_vidid (normalize_youtube_input url)) = None"
    by (simp add: py_or_def truthy_def)
  with assms(1) show ?thesis by (simp add: resolve_media_def)
qed

lemma check_api_key_admitted:
  assumes "check_api_key e k w = (Inr record, w1)"
  shows "used_count w1 k = (if last_used w k = Some (today e) then used_count w k else 0) + 1"
  using assms
  by (auto simp: check_api_key_def update_one_apikey_def log_event_def Let_def used_count_def
      last_used_def get_or_def split: if_splits option.splits)

text \<open>
  Claim C9. A request that has been admitted and whose reference holds no identifier is
  answered at once with status 400 and the message of the invalid reference, by \<open>ytmp4\<close>
  and by \<open>ytmp3\<close>. Handling the invalid reference accesses no store: the state the
  handler leaves is the state \<open>w1\<close> that the admission left, so no cache lookup and no call
  of the origin is made, and the durable state, the token's used-today counter included,
  is as it was when the request was admitted. The remaining conjuncts say what that state
  is: the admission itself has touched the \<open>apikeys\<close> collection only, the cache and the
  in-memory map are those of the state before the request, and the counter is the one the
  admission set.
\<close>

theorem invalid_reference_after_admission:
  assumes "check_api_key e api_key w = (Inr record, w1)"
    and "extract_vidid url = None"
  shows "ytmp4 cfg e url api_key quality w = (JSONResponse 400 ''Invalid YouTube URL or ID'', w1)
     \<and> ytmp3 cfg e url api_key quality w = (JSONResponse 400 ''Invalid YouTube URL or ID'', w1)
     \<and> cache w1 = cache w \<and> IN_MEMORY_CACHE w1 = IN_MEMORY_CACHE w
     \<and> set (trace w1) \<subseteq> set (trace w) \<union> {ApikeysFind api_key, ApikeysUpdate api_key}
     \<and> used_count w1 api_key
          = (if last_used w api_key = Some (today e) then used_count w api_key else 0) + 1"
proof -
  note a = resolve_media_invalid [OF assms]
  have b: "cache w1 = cache w \<and> IN_MEMORY_CACHE w1 = IN_MEMORY_CACHE w
     \<and> set (trace w1) \<subseteq> set (trace w) \<union> {ApikeysFind api_key, ApikeysUpdate api_key}"
    using check_api_key_frame [of e api_key w] assms(1) by simp
  from a b check_api_key_admitted [OF assms(1)] show ?thesis by (simp add: ytmp4_def ytmp3_def)
qed

theorem invalid_reference_after_admission_witness:
  "ytmp4 example_config example_env ''not a video'' ''abc'' None example_world
     = (JSONResponse 400 ''Invalid YouTube URL or ID'', snd (check_api_key example_env ''abc'' example_world))
   \<and> used_count (snd (ytmp4 example_config example_env ''not a video'' ''abc'' None example_world)) ''abc''
     = 1"
proof -
  have x: "extract_vidid ''not a video'' = None" by code_simp
  from invalid_reference_after_admission [OF example_admission x, of example_config None]
  have a: "ytmp4 example_config example_env ''not a video'' ''abc'' None example_world
     = (JSONResponse 400 ''Invalid YouTube URL or ID'', snd (check_api_key example_env ''abc'' example_world))"
    by simp
  have "used_count (snd (check_api_key example_env ''abc'' example_world)) ''abc'' = 1"
    by (simp add: check_api_key_def example_world_def empty_world_def example_env_def
        example_record_def check_expiry_def get_or_def Let_def log_event_def update_one_apikey_def
        used_count_def)
  with a show ?thesis by simp
qed

text \<open>
  Claim C8, as amended. On a cache miss, when the origin answers, the handlers take
  \<^verbatim>\<open>quality or choose_best_quality(...)\<close>: a preferred quality that is supplied and not
  empty is used in place of the selector's choice whether or not the metadata lists it
  among the renditions; the selector's choice is used exactly when no preferred quality is
  supplied or it is the empty string. The quality so selected is the one requested from
  the origin and the one reported to the caller.
\<close>

theorem preferred_quality_overrides:
  assumes "kind = ''video'' \<or> kind = ''audio''"
    and "check_api_key e api_key w = (Inr record, w1)"
    and "py_or (extract_vidid url) (extract_vidid (normalize_youtube_input url)) = Some vidid"
    and "vidid \<noteq> []"
    and "get_cached_file vidid kind w1 = (None, w2)"
    and "savetube_info e (normalize_youtube_input url) = Inr dec"
    and "q = (case quality of
                None \<Rightarrow> choose_best_quality cfg dec kind
              | Some p \<Rightarrow> if p = [] then choose_best_quality cfg dec kind else p)"
    and "savetube_download e (d_key dec) q kind = Inr download_url"
  shows "response_quality
           (fst ((if kind = ''video'' then ytmp4 else ytmp3) cfg e url api_key quality w))
         = Some q"
proof -
  have sq: "selected_quality cfg quality dec kind = q"
    using assms(7) by (simp add: selected_quality_def split: option.splits)
  have "response_quality (fst (resolve_media cfg e kind url api_key quality w)) = Some q"
    using resolve_media_origin_quality [OF assms(2-6), of cfg quality download_url] assms(8) sq
    by simp
  moreover have "(if kind = ''video'' then ytmp4 else ytmp3) cfg e url api_key quality w
      = resolve_media cfg e kind url api_key quality w"
    using assms(1) by (auto simp: ytmp4_def ytmp3_def)
  ultimately show ?thesis by simp
qed

theorem preferred_quality_overrides_witness:
  "response_quality (fst (ytmp4 example_config example_env ''https://youtu.be/dQw4w9WgXcQ'' ''abc''
       (Some ''720'') example_world)) = Some ''720''
   \<and> response_quality (fst (ytmp4 example_config example_env ''https://youtu.be/dQw4w9WgXcQ'' ''abc''
       None example_world)) = Some ''1080''"
proof -
  let ?dec = "example_metadata (Some example_renditions)"
  have k: "''video'' = ''video'' \<or> ''video'' = ''audio''" by simp
  have i: "savetube_info example_env (normalize_youtube_input ''https://youtu.be/dQw4w9WgXcQ'') = Inr ?dec"
    by (simp add: example_env_def)
  have q1: "''720'' = (case Some ''720'' of
                None \<Rightarrow> choose_best_quality example_config ?dec ''video''
              | Some p \<Rightarrow> if p = [] then choose_best_quality example_config ?dec ''video'' else p)"
    by simp
  have q2: "''1080'' = (case None of
                None \<Rightarrow> choose_best_quality example_config ?dec ''video''
              | Some p \<Rightarrow> if p = [] then choose_best_quality example_config ?dec ''video'' else p)"
    by (simp add: example_best)
  have d: "savetube_download example_env (d_key ?dec) q ''video'' = Inr (''https://cdn.example/'' @ q)" for q
    by (simp add: example_env_def)
  have v: "''dQw4w9WgXcQ'' \<noteq> []" by simp
  from preferred_quality_overrides [OF k example_admission example_vidid v example_cache_miss i q1 d]
  have a: "response_quality (fst (ytmp4 example_config example_env ''https://youtu.be/dQw4w9WgXcQ'' ''abc''
       (Some ''720'') example_world)) = Some ''720''" by simp
  from preferred_quality_overrides [OF k example_admission example_vidid v example_cache_miss i q2 d]
  have b: "response_quality (fst (ytmp4 example_config example_env ''https://youtu.be/dQw4w9WgXcQ'' ''abc''
       None example_world)) = Some ''1080''" by simp
  from a b show ?thesis by simp
qed


text \<open>
  Claim C8 as stated says that a preferred quality absent from the renditions gives way
  to the selector's choice. The code never looks the preferred quality up in the
  renditions: with renditions 480, 720 and 1080, for which the selector chooses 1080, the
  preferred quality 9999 is what the request uses.
\<close>

theorem preferred_quality_counterexample:
  "response_quality (fst (ytmp4 example_config example_env ''https://youtu.be/dQw4w9WgXcQ'' ''abc''
       (Some ''9999'') example_world)) = Some ''9999''
   \<and> map (descriptor ''video'') (renditions (example_metadata (Some example_renditions)) ''video'')
       = [Some 480, Some 720, Some 1080]
   \<and> choose_best_quality example_config (example_metadata (Some example_renditions)) ''video'' = ''1080''"
proof -
  have i: "savetube_info example_env (normalize_youtube_input ''https://youtu.be/dQw4w9WgXcQ'')
      = Inr (example_metadata (Some example_renditions))"
    by (simp add: example_env_def)
  have d: "savetube_download example_env (d_key (example_metadata (Some example_renditions)))
      (selected_quality example_config (Some ''9999'') (example_metadata (Some example_renditions)) ''video'')
      ''video'' = Inr (''https://cdn.example/'' @ ''9999'')"
    by (simp add: example_env_def selected_quality_def)
  have v: "''dQw4w9WgXcQ'' \<noteq> []" by simp
  from resolve_media_origin_quality [OF example_admission example_vidid v example_cache_miss i d]
  have "response_quality (fst (resolve_media example_config example_env ''video''
       ''https://youtu.be/dQw4w9WgXcQ'' ''abc'' (Some ''9999'') example_world)) = Some ''9999''"
    by (simp add: selected_quality_def)
  moreover have "map (descriptor ''video'') (renditions (example_metadata (Some example_renditions)) ''video'')
       = [Some 480, Some 720, Some 1080]"
    by (simp add: renditions_def example_metadata_def example_renditions_def get_or_def descriptor_def)
  ultimately show ?thesis using example_best by (simp add: ytmp4_def)
qed

section \<open>Archiver: claims\<close>

lemma archive_body_frame:
  "PROCESSING_SET (snd (archive_body cfg out t w)) = PROCESSING_SET w
   \<and> apikeys (snd (archive_body cfg out t w)) = apikeys w
   \<and> tasks (snd (archive_body cfg out t w)) = tasks w"
  by (auto simp: archive_body_def download_file_def upload_to_telegram_def save_for_task_def
      save_cache_record_def log_event_def Let_def
      split: download_outcome.splits sum.splits prod.splits if_splits)

lemma archive_body_failure:
  assumes "\<not> all_ok out"
  shows "\<exists>x. fst (archive_body cfg out t w) = Inl x"
    and "cache (snd (archive_body cfg out t w)) = cache w"
    and "IN_MEMORY_CACHE (snd (archive_body cfg out t w)) = IN_MEMORY_CACHE w"
    and "record_writes (trace (snd (archive_body cfg out t w))) = record_writes (trace w)"
  using assms
  by (auto simp: all_ok_def archive_body_def download_file_def upload_to_telegram_def save_for_task_def
      save_cache_record_def log_event_def Let_def record_writes_def
      split: download_outcome.splits sum.splits prod.splits if_splits)

lemma archive_body_success:
  assumes "all_ok out"
  shows "fst (archive_body cfg out t w) = Inr ()"
    and "\<exists>doc. cache (snd (archive_body cfg out t w)) (t_ytid t, t_media_type t) = Some doc
          \<and> IN_MEMORY_CACHE (snd (archive_body cfg out t w)) (task_key t) = Some doc"
    and "record_writes (trace (snd (archive_body cfg out t w))) = record_writes (trace w) + 1"
  using assms
  by (auto simp: all_ok_def archive_body_def download_file_def upload_to_telegram_def save_for_task_def
      save_cache_record_def log_event_def Let_def record_writes_def task_key_def
      split: download_outcome.splits sum.splits prod.splits if_splits)

lemma archive_body_uploads:
  "uploads (trace (snd (archive_body cfg out t w)))
     = uploads (trace w) + (if sent_ok out then 1 else 0)"
  by (auto simp: sent_ok_def archive_body_def download_file_def upload_to_telegram_def save_for_task_def
      save_cache_record_def log_event_def Let_def uploads_def
      split: download_outcome.splits sum.splits prod.splits if_splits)

lemma cleanup_frame:
  "cache (cleanup cfg out t w) = cache w
   \<and> IN_MEMORY_CACHE (cleanup cfg out t w) = IN_MEMORY_CACHE w
   \<and> PROCESSING_SET (cleanup cfg out t w) = PROCESSING_SET w - {task_key t}
   \<and> uploads (trace (cleanup cfg out t w)) = uploads (trace w)
   \<and> record_writes (trace (cleanup cfg out t w)) = record_writes (trace w)
   \<and> (o_remove_ok out \<longrightarrow> task_filepath cfg t \<notin> files (cleanup cfg out t w))"
  by (auto simp: cleanup_def log_event_def Let_def uploads_def record_writes_def)

lemma background_run:
  assumes "task_key t \<notin> PROCESSING_SET w"
  shows "background_download_and_upload cfg out t w =
     (Inr (), cleanup cfg out t
        (snd (archive_body cfg out t (w\<lparr>PROCESSING_SET := insert (task_key t) (PROCESSING_SET w)\<rparr>))))"
  using assms
  by (auto simp: background_download_and_upload_def Let_def split: prod.splits sum.splits)

lemma background_counts:
  assumes "task_key t \<notin> PROCESSING_SET w"
  shows "uploads (trace (snd (background_download_and_upload cfg out t w)))
           = uploads (trace w) + (if sent_ok out then 1 else 0)"
    and "record_writes (trace (snd (background_download_and_upload cfg out t w)))
           = record_writes (trace w) + (if all_ok out then 1 else 0)"
    and "PROCESSING_SET (snd (background_download_and_upload cfg out t w)) = PROCESSING_SET w"
proof -
  let ?w1 = "w\<lparr>PROCESSING_SET := insert (task_key t) (PROCESSING_SET w)\<rparr>"
  let ?w2 = "snd (archive_body cfg out t ?w1)"
  have w': "snd (background_download_and_upload cfg out t w) = cleanup cfg out t ?w2"
    using background_run [OF assms, of cfg out] by simp
  show "uploads (trace (snd (background_download_and_upload cfg out t w)))
           = uploads (trace w) + (if sent_ok out then 1 else 0)"
    using archive_body_uploads [of cfg out t ?w1] cleanup_frame [of cfg out t ?w2]
    by (simp add: w')
  show "record_writes (trace (snd (background_download_and_upload cfg out t w)))
           = record_writes (trace w) + (if all_ok out then 1 else 0)"
  proof (cases "all_ok out")
    case True
    from archive_body_success(3) [OF True, of cfg t ?w1] cleanup_frame [of cfg out t ?w2] True
    show ?thesis by (simp add: w')
  next
    case False
    from archive_body_failure(4) [OF False, of cfg t ?w1] cleanup_frame [of cfg out t ?w2] False
    show ?thesis by (simp add: w')
  qed
  show "PROCESSING_SET (snd (background_download_and_upload cfg out t w)) = PROCESSING_SET w"
    using archive_body_frame [of cfg out t ?w1] cleanup_frame [of cfg out t ?w2] assms
    by (simp add: w')
qed

lemma run_schedule_append:
  "run_schedule cfg (xs @ ys) c = run_schedule cfg ys (run_schedule cfg xs c)"
proof (induction xs arbitrary: c)
  case Nil
  show ?case by (cases c) simp
next
  case (Cons i xs)
  show ?case by (cases c) (simp add: Cons.IH split: prod.splits)
qed

lemma advance_Finished: "p_pc (fst c) = Finished \<Longrightarrow> advance cfg c = c"
  by (cases c) (simp add: advance_def step_def)

lemma advance_funpow_Finished: "p_pc (fst c) = Finished \<Longrightarrow> (advance cfg ^^ n) c = c"
  by (induction n) (simp_all add: advance_Finished)

lemma run_replicate:
  assumes "a < length ps"
  shows "run_schedule cfg (replicate n a) (ps, w)
     = (ps[a := fst ((advance cfg ^^ n) (ps ! a, w))], snd ((advance cfg ^^ n) (ps ! a, w)))"
  using assms
proof (induction n arbitrary: ps w)
  case 0
  then show ?case by simp
next
  case (Suc n)
  obtain p w1 where s: "step cfg (ps ! a) w = (p, w1)" by (cases "step cfg (ps ! a) w")
  have "run_schedule cfg (replicate (Suc n) a) (ps, w) = run_schedule cfg (replicate n a) (ps[a := p], w1)"
    using Suc.prems s by simp
  also have "\<dots> = ((ps[a := p])[a := fst ((advance cfg ^^ n) (p, w1))], snd ((advance cfg ^^ n) (p, w1)))"
    using Suc.IH [of "ps[a := p]" w1] Suc.prems by simp
  also have "(advance cfg ^^ n) (p, w1) = (advance cfg ^^ Suc n) (ps ! a, w)"
    using s by (simp add: funpow_swap1 advance_def)
  finally show ?case by simp
qed

lemma run_other_finished:
  assumes "length ps = 2" and "a < 2" and "b < 2" and "a \<noteq> b" and "p_pc (ps ! b) = Finished"
  shows "run_schedule cfg rest (ps, w)
     = (ps[a := fst ((advance cfg ^^ count_list rest a) (ps ! a, w))],
        snd ((advance cfg ^^ count_list rest a) (ps ! a, w)))"
  using assms
proof (induction rest arbitrary: ps w)
  case Nil
  then show ?case by simp
next
  case (Cons i rest)
  consider "i = a" | "i = b" | "2 \<le> i" using Cons.prems(2,3,4) by linarith
  then show ?case
  proof cases
    case 1
    obtain p w1 where s: "step cfg (ps ! a) w = (p, w1)" by (cases "step cfg (ps ! a) w")
    have b': "p_pc ((ps[a := p]) ! b) = Finished" using Cons.prems by simp
    have "run_schedule cfg (i # rest) (ps, w) = run_schedule cfg rest (ps[a := p], w1)"
      using 1 s Cons.prems by simp
    also have "\<dots> = ((ps[a := p])[a := fst ((advance cfg ^^ count_list rest a) (p, w1))],
        snd ((advance cfg ^^ count_list rest a) (p, w1)))"
      using Cons.IH [of "ps[a := p]" w1] Cons.prems b' by simp
    also have "(advance cfg ^^ count_list rest a) (p, w1)
        = (advance cfg ^^ count_list (i # rest) a) (ps ! a, w)"
      using s 1 by (simp add: funpow_swap1 advance_def)
    finally show ?thesis by simp
  next
    case 2
    have s: "step cfg (ps ! b) w = (ps ! b, w)" using Cons.prems(5) by (simp add: step_def)
    have "run_schedule cfg (i # rest) (ps, w) = run_schedule cfg rest (ps, w)"
      using 2 s Cons.prems by simp
    with Cons.IH [of ps w] Cons.prems 2 show ?thesis by simp
  next
    case 3
    with Cons.prems have "run_schedule cfg (i # rest) (ps, w) = run_schedule cfg rest (ps, w)"
      by simp
    with Cons.IH [of ps w] Cons.prems 3 show ?thesis by simp
  qed
qed


text \<open>
  Claim C3. Take any archival run that proceeds (its pair is not marked in flight when it
  enters), whatever the outcomes of its download, upload and record write. The coroutine
  returns normally: no exception leaves it. When it has returned, the in-flight mark of the
  pair is cleared and the set of marks is as it was before the run; the temporary file is
  gone whenever its removal succeeds (a removal that fails is logged, and the mark is
  cleared all the same); and when any of the three operations failed, the \<open>cache\<close>
  collection and \<open>IN_MEMORY_CACHE\<close> are as they were: no record is published.
\<close>

theorem archival_cleanup:
  assumes "task_key t \<notin> PROCESSING_SET w"
    and "background_download_and_upload cfg out t w = (r, w')"
  shows "r = Inr ()
     \<and> task_key t \<notin> PROCESSING_SET w'
     \<and> PROCESSING_SET w' = PROCESSING_SET w
     \<and> (o_remove_ok out \<longrightarrow> task_filepath cfg t \<notin> files w')
     \<and> (\<not> (o_download out = Downloaded \<and> \<not> isl (o_upload out) \<and> o_db_ok out) \<longrightarrow>
          cache w' = cache w \<and> IN_MEMORY_CACHE w' = IN_MEMORY_CACHE w
          \<and> record_writes (trace w') = record_writes (trace w))"
proof -
  let ?w1 = "w\<lparr>PROCESSING_SET := insert (task_key t) (PROCESSING_SET w)\<rparr>"
  let ?w2 = "snd (archive_body cfg out t ?w1)"
  from background_run [OF assms(1), of cfg out] assms(2)
  have r: "r = Inr ()" and w': "w' = cleanup cfg out t ?w2" by simp_all
  have ps: "PROCESSING_SET ?w2 = insert (task_key t) (PROCESSING_SET w)"
    using archive_body_frame [of cfg out t ?w1] by simp
  have a: "PROCESSING_SET w' = PROCESSING_SET w"
    using cleanup_frame [of cfg out t ?w2] ps assms(1) by (simp add: w')
  have b: "o_remove_ok out \<longrightarrow> task_filepath cfg t \<notin> files w'"
    using cleanup_frame [of cfg out t ?w2] by (simp add: w')
  have c: "cache w' = cache w \<and> IN_MEMORY_CACHE w' = IN_MEMORY_CACHE w
          \<and> record_writes (trace w') = record_writes (trace w)"
    if "\<not> (o_download out = Downloaded \<and> \<not> isl (o_upload out) \<and> o_db_ok out)"
  proof -
    from that have "\<not> all_ok out" by (simp add: all_ok_def)
    from archive_body_failure(2-4) [OF this, of cfg t ?w1] cleanup_frame [of cfg out t ?w2]
    show ?thesis by (simp add: w')
  qed
  from r a b c assms(1) show ?thesis by simp
qed


theorem archival_cleanup_witness:
  "fst (background_download_and_upload example_config upload_fails example_task empty_world) = Inr ()
   \<and> task_key example_task
         \<notin> PROCESSING_SET (snd (background_download_and_upload example_config upload_fails
                                  example_task empty_world))
   \<and> task_filepath example_config example_task
         \<notin> files (snd (background_download_and_upload example_config upload_fails
                         example_task empty_world))
   \<and> cache (snd (background_download_and_upload example_config upload_fails
                    example_task empty_world)) = cache empty_world"
proof -
  have h1: "task_key example_task \<notin> PROCESSING_SET empty_world"
    by (simp add: empty_world_def)
  have h2: "background_download_and_upload example_config upload_fails example_task empty_world
      = (fst (background_download_and_upload example_config upload_fails example_task empty_world),
         snd (background_download_and_upload example_config upload_fails example_task empty_world))"
    by simp
  have h3: "o_remove_ok upload_fails" "isl (o_upload upload_fails)"
    by (simp_all add: upload_fails_def)
  from archival_cleanup [OF h1 h2] h1 h3 show ?thesis by simp
qed

lemma advance_five:
  assumes "task_key t \<notin> PROCESSING_SET w"
  shows "(advance cfg ^^ 5) (new_proc t out, w)
     = ((new_proc t out)\<lparr>p_pc := Finished\<rparr>, snd (background_download_and_upload cfg out t w))"
proof (cases "o_download out")
  case (DownloadFailed c)
  with assms show ?thesis
    by (simp add: eval_nat_numeral advance_def step_def new_proc_def
        background_download_and_upload_def archive_body_def download_file_def Let_def)
next
  case Downloaded
  show ?thesis
  proof (cases "o_upload out")
    case (Inl x)
    with assms Downloaded show ?thesis
      by (simp add: eval_nat_numeral advance_def step_def new_proc_def
          background_download_and_upload_def archive_body_def download_file_def
          upload_to_telegram_def Let_def)
  next
    case (Inr sent)
    obtain f m where sent: "sent = (f, m)" by (cases sent)
    show ?thesis
    proof (cases "o_db_ok out")
      case True
      with assms Downloaded Inr sent show ?thesis
        by (simp add: eval_nat_numeral advance_def step_def new_proc_def
            background_download_and_upload_def archive_body_def download_file_def
            upload_to_telegram_def save_for_task_def save_cache_record_def Let_def)
    next
      case False
      with assms Downloaded Inr sent show ?thesis
        by (simp add: eval_nat_numeral advance_def step_def new_proc_def
            background_download_and_upload_def archive_body_def download_file_def
            upload_to_telegram_def save_for_task_def save_cache_record_def Let_def)
    qed
  qed
qed

lemma advance_invariant:
  assumes "task_key t \<notin> PROCESSING_SET w"
  shows "p_task (fst ((advance cfg ^^ n) (new_proc t out, w))) = t
     \<and> p_out (fst ((advance cfg ^^ n) (new_proc t out, w))) = out
     \<and> (p_pc (fst ((advance cfg ^^ n) (new_proc t out, w))) = Start \<longrightarrow>
           task_key t \<notin> PROCESSING_SET (snd ((advance cfg ^^ n) (new_proc t out, w))))
     \<and> (in_flight (p_pc (fst ((advance cfg ^^ n) (new_proc t out, w)))) \<longrightarrow>
           task_key t \<in> PROCESSING_SET (snd ((advance cfg ^^ n) (new_proc t out, w))))"
proof (induction n)
  case 0
  with assms show ?case by (simp add: new_proc_def in_flight_def)
next
  case (Suc n)
  obtain p v where c: "(advance cfg ^^ n) (new_proc t out, w) = (p, v)"
    by (cases "(advance cfg ^^ n) (new_proc t out, w)")
  from Suc c have ih: "p_task p = t" "p_out p = out"
    "p_pc p = Start \<longrightarrow> task_key t \<notin> PROCESSING_SET v"
    "in_flight (p_pc p) \<longrightarrow> task_key t \<in> PROCESSING_SET v" by simp_all
  have "(advance cfg ^^ Suc n) (new_proc t out, w) = step cfg p v"
    using c by (simp add: advance_def)
  moreover have "p_task (fst (step cfg p v)) = t
     \<and> p_out (fst (step cfg p v)) = out
     \<and> (p_pc (fst (step cfg p v)) = Start \<longrightarrow> task_key t \<notin> PROCESSING_SET (snd (step cfg p v)))
     \<and> (in_flight (p_pc (fst (step cfg p v))) \<longrightarrow> task_key t \<in> PROCESSING_SET (snd (step cfg p v)))"
    using ih
    by (cases "p_pc p")
       (auto simp: step_def in_flight_def download_file_def upload_to_telegram_def
          save_for_task_def save_cache_record_def log_event_def Let_def
          split: download_outcome.splits sum.splits prod.splits if_splits)
  ultimately show ?case by simp
qed

lemma advance_settled:
  assumes "task_key t \<notin> PROCESSING_SET w"
    and "p_pc (fst ((advance cfg ^^ n) (new_proc t out, w))) = Finished"
  shows "snd ((advance cfg ^^ n) (new_proc t out, w))
     = snd (background_download_and_upload cfg out t w)"
proof (cases "n \<le> 5")
  case True
  have "(advance cfg ^^ ((5 - n) + n)) (new_proc t out, w)
      = (advance cfg ^^ (5 - n)) ((advance cfg ^^ n) (new_proc t out, w))"
    by (simp only: funpow_add comp_apply)
  with True have "(advance cfg ^^ 5) (new_proc t out, w)
      = (advance cfg ^^ (5 - n)) ((advance cfg ^^ n) (new_proc t out, w))"
    by simp
  also have "\<dots> = (advance cfg ^^ n) (new_proc t out, w)"
    using assms(2) by (rule advance_funpow_Finished)
  finally have "(advance cfg ^^ n) (new_proc t out, w) = (advance cfg ^^ 5) (new_proc t out, w)"
    by simp
  then show ?thesis by (simp only: advance_five [OF assms(1)] snd_conv)
next
  case False
  have "(advance cfg ^^ ((n - 5) + 5)) (new_proc t out, w)
      = (advance cfg ^^ (n - 5)) ((advance cfg ^^ 5) (new_proc t out, w))"
    by (simp only: funpow_add comp_apply)
  with False have "(advance cfg ^^ n) (new_proc t out, w)
      = (advance cfg ^^ (n - 5)) ((advance cfg ^^ 5) (new_proc t out, w))"
    by simp
  also have "\<dots> = (advance cfg ^^ 5) (new_proc t out, w)"
    using advance_five [OF assms(1), of cfg out] by (intro advance_funpow_Finished) simp
  finally have "(advance cfg ^^ n) (new_proc t out, w) = (advance cfg ^^ 5) (new_proc t out, w)" .
  then show ?thesis by (simp only: advance_five [OF assms(1)] snd_conv)
qed


lemma already_processing:
  "task_key t \<in> PROCESSING_SET v \<Longrightarrow> background_download_and_upload cfg out t v = (Inr (), v)"
  by (simp add: background_download_and_upload_def)

lemma concurrent_pair:
  assumes key: "task_key ta = task_key tb"
    and free: "task_key ta \<notin> PROCESSING_SET w"
    and ps0: "length ps0 = 2" "a < 2" "b < 2" "a \<noteq> b"
      "ps0 ! a = new_proc ta outa" "ps0 ! b = new_proc tb outb"
    and first: "run_schedule cfg (replicate n a) (ps0, w) = (ps1, w1)"
    and busy: "in_flight (p_pc (ps1 ! a))"
    and rest: "run_schedule cfg (b # rest) (ps1, w1) = (ps2, w2)"
    and settled: "p_pc (ps2 ! a) = Finished"
  shows "p_pc (ps2 ! b) = Finished"
    and "w2 = snd (background_download_and_upload cfg outa ta w)"
proof -
  let ?X = "(advance cfg ^^ n) (new_proc ta outa, w)"
  from run_replicate [where a = a and ps = ps0 and cfg = cfg and n = n and w = w] ps0 first
  have ps1: "ps1 = ps0[a := fst ?X]" and w1: "w1 = snd ?X" by simp_all
  have a1: "ps1 ! a = fst ?X" using ps1 ps0 by simp
  have b1: "ps1 ! b = new_proc tb outb" using ps1 ps0 by simp
  have l1: "length ps1 = 2" using ps1 ps0 by simp
  from advance_invariant [OF free, where cfg = cfg and n = n and out = outa] busy a1
  have marked: "task_key ta \<in> PROCESSING_SET w1" by (simp add: w1)
  let ?pb = "(new_proc tb outb)\<lparr>p_pc := Finished\<rparr>"
  have sb: "step cfg (ps1 ! b) w1 = (?pb, w1)"
    using marked key b1 by (simp add: step_def new_proc_def)
  let ?ps = "ps1[b := ?pb]"
  from rest sb l1 ps0(3) have r: "run_schedule cfg rest (?ps, w1) = (ps2, w2)" by simp
  have lps: "length ?ps = 2" using l1 by simp
  have fin: "p_pc (?ps ! b) = Finished" using l1 ps0(3) by simp
  have psa: "?ps ! a = fst ?X" using a1 ps0(4) by simp
  let ?m = "count_list rest a"
  let ?Y = "(advance cfg ^^ ?m) (fst ?X, snd ?X)"
  from run_other_finished [OF lps ps0(2) ps0(3) ps0(4) fin, where cfg = cfg and rest = rest and w = w1] r psa
  have ps2: "ps2 = ?ps[a := fst ?Y]" and w2: "w2 = snd ?Y" by (simp_all add: w1)
  have Y: "?Y = (advance cfg ^^ (?m + n)) (new_proc ta outa, w)"
    by (simp only: funpow_add comp_apply prod.collapse)
  from ps2 lps ps0 show "p_pc (ps2 ! b) = Finished" by simp
  from ps2 lps ps0 settled have "p_pc (fst ?Y) = Finished" by simp
  then have "p_pc (fst ((advance cfg ^^ (?m + n)) (new_proc ta outa, w))) = Finished"
    by (simp only: Y)
  from advance_settled [OF free this] show "w2 = snd (background_download_and_upload cfg outa ta w)"
    by (simp only: w2 Y)
qed

lemma two_calls_entered:
  "in_flight (p_pc (fst (run_schedule example_config (replicate 2 0) two_calls) ! 0))"
  by (simp add: two_calls_def eval_nat_numeral step_def new_proc_def in_flight_def
      empty_world_def task_key_def cache_key_def example_task_def all_succeed_def
      download_file_def log_event_def Let_def)

lemma two_calls_settled:
  "p_pc (fst (run_schedule example_config (1 # [0, 1, 0, 0])
                (run_schedule example_config (replicate 2 0) two_calls)) ! 0) = Finished"
  by (simp add: two_calls_def eval_nat_numeral step_def new_proc_def in_flight_def
      empty_world_def task_key_def cache_key_def example_task_def all_succeed_def
      download_file_def upload_to_telegram_def save_for_task_def save_cache_record_def
      cleanup_def log_event_def Let_def)

text \<open>
  Claim C2. The archiver is single-flight per key. A call that finds its pair marked in
  flight returns at once and leaves the state as it was: nothing is downloaded, uploaded
  or written. Hence two concurrent calls for the same pair do the work of one. Take two
  calls \<open>a\<close> and \<open>b\<close> for one pair, not marked at the start; let \<open>a\<close> run \<open>n\<close> steps and be
  in flight (entered, not settled) when \<open>b\<close> makes its entry step; let the runs then
  proceed in any order until \<open>a\<close> has settled. Then \<open>b\<close> has settled too, the state is the
  one a single run of \<open>a\<close> alone leaves, the in-flight mark is absent, and the runs have
  completed one upload if the download and upload of \<open>a\<close> succeeded and one record write
  if its write succeeded as well (none otherwise), never two.
\<close>

theorem single_flight:
  assumes "t_ytid t0 = t_ytid t1 \<and> t_media_type t0 = t_media_type t1"
    and "task_key t0 \<notin> PROCESSING_SET w"
    and "(a = 0 \<and> b = 1) \<or> (a = 1 \<and> b = 0)"
    and "run_schedule cfg (replicate n a) ([new_proc t0 out0, new_proc t1 out1], w) = (ps1, w1)"
    and "in_flight (p_pc (ps1 ! a))"
    and "run_schedule cfg (b # rest) (ps1, w1) = (ps2, w2)"
    and "p_pc (ps2 ! a) = Finished"
  shows "(task_key t \<in> PROCESSING_SET v \<longrightarrow>
            background_download_and_upload cfg out t v = (Inr (), v))
     \<and> p_pc (ps2 ! b) = Finished
     \<and> w2 = snd (background_download_and_upload cfg ([out0, out1] ! a) ([t0, t1] ! a) w)
     \<and> uploads (trace w2) = uploads (trace w) + (if sent_ok ([out0, out1] ! a) then 1 else 0)
     \<and> record_writes (trace w2)
          = record_writes (trace w) + (if all_ok ([out0, out1] ! a) then 1 else 0)
     \<and> task_key t0 \<notin> PROCESSING_SET w2"
proof -
  let ?ps0 = "[new_proc t0 out0, new_proc t1 out1]"
  let ?ta = "[t0, t1] ! a" and ?tb = "[t0, t1] ! b"
  let ?oa = "[out0, out1] ! a" and ?ob = "[out0, out1] ! b"
  from assms(1) have k01: "task_key t0 = task_key t1" by (simp add: task_key_def)
  from assms(3) k01 have key: "task_key ?ta = task_key ?tb" and ka: "task_key ?ta = task_key t0"
    by auto
  from assms(2) ka have free: "task_key ?ta \<notin> PROCESSING_SET w" by simp
  from assms(3) have ix: "a < 2" "b < 2" "a \<noteq> b"
    "?ps0 ! a = new_proc ?ta ?oa" "?ps0 ! b = new_proc ?tb ?ob" by auto
  have len: "length ?ps0 = 2" by simp
  note P = concurrent_pair [OF key free len ix assms(4) assms(5) assms(6) assms(7)]
  note C = background_counts [OF free, where cfg = cfg and out = ?oa]
  from P(2) C ka assms(2) have
    "uploads (trace w2) = uploads (trace w) + (if sent_ok ?oa then 1 else 0)"
    "record_writes (trace w2) = record_writes (trace w) + (if all_ok ?oa then 1 else 0)"
    "task_key t0 \<notin> PROCESSING_SET w2" by simp_all
  with P already_processing [where t = t and v = v and cfg = cfg and out = out] show ?thesis by simp
qed


theorem single_flight_witness:
  "uploads (trace (snd (run_schedule example_config (1 # [0, 1, 0, 0])
                (run_schedule example_config (replicate 2 0) two_calls)))) = 1
   \<and> record_writes (trace (snd (run_schedule example_config (1 # [0, 1, 0, 0])
                (run_schedule example_config (replicate 2 0) two_calls)))) = 1
   \<and> task_key example_task \<notin> PROCESSING_SET (snd (run_schedule example_config (1 # [0, 1, 0, 0])
                (run_schedule example_config (replicate 2 0) two_calls)))
   \<and> p_pc (fst (run_schedule example_config (1 # [0, 1, 0, 0])
                (run_schedule example_config (replicate 2 0) two_calls)) ! 1) = Finished"
proof -
  let ?t1 = "example_task\<lparr>t_download_url := ''https://cdn.example/other''\<rparr>"
  let ?r1 = "run_schedule example_config (replicate 2 0)
               ([new_proc example_task all_succeed, new_proc ?t1 all_succeed], empty_world)"
  let ?r2 = "run_schedule example_config (1 # [0, 1, 0, 0]) (fst ?r1, snd ?r1)"
  have h1: "t_ytid example_task = t_ytid ?t1 \<and> t_media_type example_task = t_media_type ?t1"
    by simp
  have h2: "task_key example_task \<notin> PROCESSING_SET empty_world"
    by (simp add: empty_world_def)
  have h3: "((0::nat) = 0 \<and> (1::nat) = 1) \<or> ((0::nat) = 1 \<and> (1::nat) = 0)" by simp
  have h4: "?r1 = (fst ?r1, snd ?r1)" by simp
  have h5: "in_flight (p_pc (fst ?r1 ! 0))"
    using two_calls_entered by (simp add: two_calls_def)
  have h6: "?r2 = (fst ?r2, snd ?r2)" by simp
  have h7: "p_pc (fst ?r2 ! 0) = Finished"
    using two_calls_settled by (simp add: two_calls_def)
  have ok: "sent_ok ([all_succeed, all_succeed] ! 0)" "all_ok ([all_succeed, all_succeed] ! 0)"
    by (simp_all add: sent_ok_def all_ok_def all_succeed_def)
  have tr: "trace empty_world = []" by (simp add: empty_world_def)
  note T = single_flight [OF h1 h2 h3 h4 h5 h6 h7,
      where t = example_task and v = empty_world and out = all_succeed]
  from T have u: "uploads (trace (snd ?r2)) = uploads (trace empty_world)
        + (if sent_ok ([all_succeed, all_succeed] ! 0) then 1 else 0)" by blast
  from T have r: "record_writes (trace (snd ?r2)) = record_writes (trace empty_world)
        + (if all_ok ([all_succeed, all_succeed] ! 0) then 1 else 0)" by blast
  from T have m: "task_key example_task \<notin> PROCESSING_SET (snd ?r2)" by blast
  from T have f: "p_pc (fst ?r2 ! 1) = Finished" by blast
  from u ok tr have u1: "uploads (trace (snd ?r2)) = 1" by (simp add: uploads_def)
  from r ok tr have r1: "record_writes (trace (snd ?r2)) = 1" by (simp add: record_writes_def)
  from u1 r1 m f
  have "uploads (trace (snd ?r2)) = 1 \<and> record_writes (trace (snd ?r2)) = 1
     \<and> task_key example_task \<notin> PROCESSING_SET (snd ?r2) \<and> p_pc (fst ?r2 ! 1) = Finished"
    by blast
  then show ?thesis by (simp add: two_calls_def)
qed

section \<open>Payload decoding: claims\<close>

lemma xor_bytes_length: "length (xor_bytes a b) = min (length a) (length b)"
  by (simp add: xor_bytes_def)

lemma xor_bytes_cancel: "length a = length b \<Longrightarrow> xor_bytes (xor_bytes a b) b = a"
proof (induction a arbitrary: b)
  case Nil
  then show ?case by (simp add: xor_bytes_def)
next
  case (Cons x a)
  then obtain y b' where b: "b = y # b'" by (cases b) auto
  with Cons.prems have "length a = length b'" by simp
  from Cons.IH [OF this] b show ?case by (simp add: xor_bytes_def xor.assoc)
qed

lemma cbc_encrypt_blocks_length:
  assumes "\<forall>blk. length blk = 16 \<longrightarrow> length (E blk) = 16"
    and "length prev = 16" and "length pt = 16 * n"
  shows "length (cbc_encrypt_blocks E n prev pt) = 16 * n"
  using assms(2,3)
proof (induction n arbitrary: prev pt)
  case 0
  then show ?case by simp
next
  case (Suc n)
  have x: "length (xor_bytes (take 16 pt) prev) = 16"
    using Suc.prems by (simp add: xor_bytes_length)
  with assms(1) have e: "length (E (xor_bytes (take 16 pt) prev)) = 16" by simp
  have d: "length (drop 16 pt) = 16 * n" using Suc.prems by simp
  from Suc.IH [OF e d] e show ?case by simp
qed

lemma cbc_round_trip:
  assumes "\<forall>blk. length blk = 16 \<longrightarrow> length (E blk) = 16 \<and> D (E blk) = blk"
    and "length prev = 16" and "length pt = 16 * n"
  shows "cbc_decrypt_blocks D n prev (cbc_encrypt_blocks E n prev pt) = pt"
  using assms(2,3)
proof (induction n arbitrary: prev pt)
  case 0
  then show ?case by simp
next
  case (Suc n)
  let ?x = "xor_bytes (take 16 pt) prev"
  have x: "length ?x = 16" using Suc.prems by (simp add: xor_bytes_length)
  with assms(1) have e: "length (E ?x) = 16" and de: "D (E ?x) = ?x" by simp_all
  have d: "length (drop 16 pt) = 16 * n" using Suc.prems by simp
  have t: "length (take 16 pt) = length prev" using Suc.prems by simp
  have "cbc_decrypt_blocks D (Suc n) prev (cbc_encrypt_blocks E (Suc n) prev pt)
      = xor_bytes (D (E ?x)) prev
        @ cbc_decrypt_blocks D n (E ?x) (cbc_encrypt_blocks E n (E ?x) (drop 16 pt))"
    using e by simp
  also have "\<dots> = take 16 pt @ drop 16 pt"
    using Suc.IH [OF e d] de xor_bytes_cancel [OF t] by simp
  finally show ?case by simp
qed

lemma pkcs7_pad_length: "length (pkcs7_pad d) mod 16 = 0 \<and> 0 < length (pkcs7_pad d)"
proof -
  have "(length d + (16 - length d mod 16)) mod 16 = 0" by presburger
  then show ?thesis by (simp add: pkcs7_pad_def)
qed


lemma unpad_padded:
  assumes "1 \<le> n" and "n \<le> 16" and "(length d + n) mod 16 = 0"
  shows "unpad (d @ replicate n (of_nat n)) 16 = Inr d"
proof -
  have u: "unat (of_nat n :: byte) = n" using assms(2) by (simp add: unat_of_nat)
  have l: "last (d @ replicate n (of_nat n :: byte)) = of_nat n" using assms(1) by simp
  show ?thesis
    unfolding unpad_def Let_def l u using assms by simp
qed

lemma unpad_pkcs7_pad: "unpad (pkcs7_pad d) 16 = Inr d"
proof -
  have "(length d + (16 - length d mod 16)) mod 16 = 0" by presburger
  then show ?thesis
    unfolding pkcs7_pad_def by (intro unpad_padded) simp_all
qed

lemma decrypt_failure_stages:
  "(b64decode lib s = None \<longrightarrow> isl (decrypt_savetube_data lib s))
   \<and> (b64decode lib s = Some raw
        \<and> isl (cbc_decrypt (decrypt_block lib) AES_KEY_BYTES (take 16 raw) (drop 16 raw))
        \<longrightarrow> isl (decrypt_savetube_data lib s))
   \<and> (b64decode lib s = Some raw
        \<and> cbc_decrypt (decrypt_block lib) AES_KEY_BYTES (take 16 raw) (drop 16 raw) = Inr decrypted
        \<and> isl (unpad decrypted 16)
        \<longrightarrow> isl (decrypt_savetube_data lib s))
   \<and> (b64decode lib s = Some raw
        \<and> cbc_decrypt (decrypt_block lib) AES_KEY_BYTES (take 16 raw) (drop 16 raw) = Inr decrypted
        \<and> unpad decrypted 16 = Inr unpadded \<and> json_loads lib unpadded = None
        \<longrightarrow> isl (decrypt_savetube_data lib s))"
  by (auto simp: decrypt_savetube_data_def Let_def split: sum.splits option.splits)

lemma cbc_decrypt_encrypted:
  assumes "length iv = 16"
    and "\<forall>blk. length blk = 16 \<longrightarrow> length (E k blk) = 16 \<and> D k (E k blk) = blk"
    and "length p mod 16 = 0"
  shows "cbc_decrypt D k (take 16 (iv @ cbc_encrypt_blocks (E k) (length p div 16) iv p))
           (drop 16 (iv @ cbc_encrypt_blocks (E k) (length p div 16) iv p)) = Inr p"
proof -
  let ?n = "length p div 16"
  from assms(3) have pl: "length p = 16 * ?n" by auto
  have el: "\<forall>blk. length blk = 16 \<longrightarrow> length (E k blk) = 16" using assms(2) by simp
  have cl: "length (cbc_encrypt_blocks (E k) ?n iv p) = 16 * ?n"
    by (rule cbc_encrypt_blocks_length [OF el assms(1) pl])
  show ?thesis
    using assms(1) cl cbc_round_trip [OF assms(2) assms(1) pl] by (simp add: cbc_decrypt_def)
qed

lemma example_b64: "b64decode example_library (example_b64encode x) = Some x"
proof -
  have "(of_nat (of_char (char_of (unat b) :: char) :: nat) :: byte) = b" for b :: byte
  proof -
    have "unat b < 256" using unsigned_less [of b] by simp
    then show ?thesis by simp
  qed
  then have "map (\<lambda>c. (of_nat (of_char c :: nat) :: byte)) (map (\<lambda>b. char_of (unat b)) x) = x"
    by (induction x) simp_all
  then show ?thesis by (simp add: example_library_def example_b64encode_def)
qed

lemma example_block:
  "\<forall>blk. length blk = 16 \<longrightarrow>
     length (example_encrypt_block AES_KEY_BYTES blk) = 16
     \<and> decrypt_block example_library AES_KEY_BYTES (example_encrypt_block AES_KEY_BYTES blk) = blk"
proof (intro allI impI)
  fix blk :: "byte list" assume l: "length blk = 16"
  have k: "length AES_KEY_BYTES = 16" by (simp add: AES_KEY_BYTES_def)
  from l k xor_bytes_cancel [of blk AES_KEY_BYTES]
  show "length (example_encrypt_block AES_KEY_BYTES blk) = 16
     \<and> decrypt_block example_library AES_KEY_BYTES (example_encrypt_block AES_KEY_BYTES blk) = blk"
    by (simp add: example_encrypt_block_def example_library_def xor_bytes_length)
qed

text \<open>
  Claim C6. The decode step inverts the encryption scheme. Let the library's base64
  decoder invert the encoder, its block decryption invert the block encryption under the
  fixed key on 16-byte blocks, and its parser read back the serialized document. Then for
  every document and every 16-byte initialization vector, the base64 text of the vector
  followed by the chained ciphertext of the padded document decodes to that document. And
  an input on which the base64 decoding, the cipher (a vector shorter than 16 bytes, a
  ciphertext that is not a whole number of blocks), the unpadding or the parse fails makes
  \<open>decrypt_savetube_data\<close> fail: it returns no document.
\<close>

theorem decrypt_round_trip:
  assumes "length iv = 16"
    and "\<forall>x. b64decode lib (b64encode x) = Some x"
    and "\<forall>blk. length blk = 16 \<longrightarrow>
           length (E AES_KEY_BYTES blk) = 16
           \<and> decrypt_block lib AES_KEY_BYTES (E AES_KEY_BYTES blk) = blk"
    and "json_loads lib (dumps doc) = Some doc"
  shows "decrypt_savetube_data lib (spec_encrypt_payload b64encode E dumps iv doc) = Inr doc
   \<and> (b64decode lib s = None \<longrightarrow> isl (decrypt_savetube_data lib s))
   \<and> (b64decode lib s = Some raw
        \<and> isl (cbc_decrypt (decrypt_block lib) AES_KEY_BYTES (take 16 raw) (drop 16 raw))
        \<longrightarrow> isl (decrypt_savetube_data lib s))
   \<and> (b64decode lib s = Some raw
        \<and> cbc_decrypt (decrypt_block lib) AES_KEY_BYTES (take 16 raw) (drop 16 raw) = Inr decrypted
        \<and> isl (unpad decrypted 16)
        \<longrightarrow> isl (decrypt_savetube_data lib s))
   \<and> (b64decode lib s = Some raw
        \<and> cbc_decrypt (decrypt_block lib) AES_KEY_BYTES (take 16 raw) (drop 16 raw) = Inr decrypted
        \<and> unpad decrypted 16 = Inr unpadded \<and> json_loads lib unpadded = None
        \<longrightarrow> isl (decrypt_savetube_data lib s))"
proof -
  let ?p = "pkcs7_pad (dumps doc)"
  let ?n = "length ?p div 16"
  let ?ct = "cbc_encrypt_blocks (E AES_KEY_BYTES) ?n iv ?p"
  from pkcs7_pad_length [of "dumps doc"] have pl: "length ?p = 16 * ?n" by auto
  have el: "\<forall>blk. length blk = 16 \<longrightarrow> length (E AES_KEY_BYTES blk) = 16"
    using assms(3) by simp
  have cl: "length ?ct = 16 * ?n"
    by (rule cbc_encrypt_blocks_length [OF el assms(1) pl])
  have raw: "b64decode lib (spec_encrypt_payload b64encode E dumps iv doc) = Some (iv @ ?ct)"
    using assms(2) by (simp add: spec_encrypt_payload_def)
  have c: "cbc_decrypt (decrypt_block lib) AES_KEY_BYTES (take 16 (iv @ ?ct)) (drop 16 (iv @ ?ct))
      = Inr ?p"
    using assms(1) cl cbc_round_trip [OF assms(3) assms(1) pl]
    by (simp add: cbc_decrypt_def)
  have "decrypt_savetube_data lib (spec_encrypt_payload b64encode E dumps iv doc) = Inr doc"
    using raw c unpad_pkcs7_pad [of "dumps doc"] assms(4)
    by (simp add: decrypt_savetube_data_def Let_def)
  with decrypt_failure_stages [of lib s raw decrypted unpadded] show ?thesis by blast
qed


theorem decrypt_round_trip_witness:
  "decrypt_savetube_data example_library
      (spec_encrypt_payload example_b64encode example_encrypt_block id example_iv [0x7B, 0x7D])
     = Inr [0x7B, 0x7D]
   \<and> isl (decrypt_savetube_data example_library ''!'')
   \<and> isl (decrypt_savetube_data example_library (example_b64encode [1, 2, 3]))
   \<and> isl (decrypt_savetube_data example_library (example_b64encode example_iv))
   \<and> isl (decrypt_savetube_data example_library
           (spec_encrypt_payload example_b64encode example_encrypt_block id example_iv []))"
proof -
  have h1: "length example_iv = 16" by (simp add: example_iv_def)
  have h2: "\<forall>x. b64decode example_library (example_b64encode x) = Some x"
    using example_b64 by simp
  have h4: "json_loads example_library (id [0x7B, 0x7D]) = Some [0x7B, 0x7D]"
    by (simp add: example_library_def)
  note T = decrypt_round_trip [where iv = example_iv and lib = example_library
      and b64encode = example_b64encode and E = example_encrypt_block and dumps = id
      and doc = "[0x7B, 0x7D]", OF h1 h2 example_block h4]
  from T have a: "decrypt_savetube_data example_library
      (spec_encrypt_payload example_b64encode example_encrypt_block id example_iv [0x7B, 0x7D])
     = Inr [0x7B, 0x7D]" by blast
  have b0: "b64decode example_library ''!'' = None" by (simp add: example_library_def)
  from T [where s = "''!''"] b0
  have b: "isl (decrypt_savetube_data example_library ''!'')" by blast
  have c0: "b64decode example_library (example_b64encode [1, 2, 3]) = Some [1, 2, 3]
      \<and> isl (cbc_decrypt (decrypt_block example_library) AES_KEY_BYTES
                (take 16 [1, 2, 3]) (drop 16 [1, 2, 3]))"
    using example_b64 [of "[1, 2, 3]"] by (simp add: cbc_decrypt_def)
  from T [where s = "example_b64encode [1, 2, 3]" and raw = "[1, 2, 3]"] c0
  have c: "isl (decrypt_savetube_data example_library (example_b64encode [1, 2, 3]))" by blast
  have d0: "b64decode example_library (example_b64encode example_iv) = Some example_iv
      \<and> cbc_decrypt (decrypt_block example_library) AES_KEY_BYTES
            (take 16 example_iv) (drop 16 example_iv) = Inr []
      \<and> isl (unpad [] 16)"
    using example_b64 [of example_iv] by (simp add: cbc_decrypt_def example_iv_def unpad_def)
  from T [where s = "example_b64encode example_iv" and raw = example_iv and decrypted = "[]"] d0
  have d: "isl (decrypt_savetube_data example_library (example_b64encode example_iv))" by blast
  let ?s = "spec_encrypt_payload example_b64encode example_encrypt_block id example_iv []"
  let ?raw = "example_iv @ cbc_encrypt_blocks (example_encrypt_block AES_KEY_BYTES)
                 (length (pkcs7_pad []) div 16) example_iv (pkcs7_pad [])"
  have pl: "length (pkcs7_pad ([] :: byte list)) mod 16 = 0" using pkcs7_pad_length [of "[]"] by simp
  have e0: "b64decode example_library ?s = Some ?raw
      \<and> cbc_decrypt (decrypt_block example_library) AES_KEY_BYTES (take 16 ?raw) (drop 16 ?raw)
          = Inr (pkcs7_pad [])
      \<and> unpad (pkcs7_pad []) 16 = Inr [] \<and> json_loads example_library [] = None"
    using example_b64 cbc_decrypt_encrypted [where E = example_encrypt_block and k = AES_KEY_BYTES
        and D = "decrypt_block example_library" and p = "pkcs7_pad []", OF h1 example_block pl] unpad_pkcs7_pad [of "[]"]
    by (simp add: spec_encrypt_payload_def example_library_def)
  from T [where s = ?s and raw = ?raw and decrypted = "pkcs7_pad []" and unpadded = "[]"] e0
  have e: "isl (decrypt_savetube_data example_library ?s)" by blast
  from a b c d e show ?thesis by blast
qed

end
